theory Spec2Isabelle
  imports Complex_Main "HOL-Library.Sublist"
begin

section \<open>Configuration (class Config)\<close>

text \<open>
  The dataclass \<open>Config\<close> of \<open>gregory.py\<close> has nine fields, seven strings and two
  integers. Python strings are modelled as \<open>string\<close>, Python's unbounded integers
  as \<open>int\<close>.
\<close>

record config =
  website_url :: string
  check_interval :: int
  smtp_server :: string
  smtp_port :: int
  email_user :: string
  email_password :: string
  sender :: string
  receiver :: string
  user_agent :: string

text \<open>
  \<open>validate\<close> walks \<open>self.__dict__.items()\<close>, whose values are strings or integers,
  and tests each with \<open>not value\<close>. A value of either kind is a \<open>pyval\<close>;
  \<open>truthy\<close> is Python's truth value of it: the empty string and the integer 0 are
  false, everything else is true.
\<close>

datatype pyval = PyStr string | PyInt int

fun truthy :: "pyval \<Rightarrow> bool" where
  "truthy (PyStr s) = (s \<noteq> [])"
| "truthy (PyInt n) = (n \<noteq> 0)"

text \<open>The items of \<open>self.__dict__\<close>, in the order in which the dataclass declares them.\<close>

definition dict_items :: "config \<Rightarrow> (string \<times> pyval) list" where
  "dict_items c =
     [(''website_url'', PyStr (website_url c)),
      (''check_interval'', PyInt (check_interval c)),
      (''smtp_server'', PyStr (smtp_server c)),
      (''smtp_port'', PyInt (smtp_port c)),
      (''email_user'', PyStr (email_user c)),
      (''email_password'', PyStr (email_password c)),
      (''sender'', PyStr (sender c)),
      (''receiver'', PyStr (receiver c)),
      (''user_agent'', PyStr (user_agent c))]"

text \<open>
  The message of line 49 is an f-string: a fixed prefix, the field name, a fixed suffix.
  Both fixed parts are Chinese text (in English: "configuration item" and "must not be
  empty"); they are written here as their UTF-8 bytes.
\<close>

definition msg_prefix :: string where
  "msg_prefix = [CHR 0xE9, CHR 0x85, CHR 0x8D, CHR 0xE7, CHR 0xBD, CHR 0xAE,
                 CHR 0xE9, CHR 0xA1, CHR 0xB9, CHR 0x20]"

definition msg_suffix :: string where
  "msg_suffix = [CHR 0x20, CHR 0xE4, CHR 0xB8, CHR 0x8D, CHR 0xE8, CHR 0x83, CHR 0xBD,
                 CHR 0xE4, CHR 0xB8, CHR 0xBA, CHR 0xE7, CHR 0xA9, CHR 0xBA]"

definition missing_msg :: "string \<Rightarrow> string" where
  "missing_msg field = msg_prefix @ field @ msg_suffix"

text \<open>The \<open>for\<close> loop of \<open>validate\<close>, with the list \<open>errors\<close> as accumulator.\<close>

fun validate_loop :: "string list \<Rightarrow> (string \<times> pyval) list \<Rightarrow> string list" where
  "validate_loop errors [] = errors"
| "validate_loop errors ((field, v) # rest) =
     validate_loop (if \<not> truthy v then errors @ [missing_msg field] else errors) rest"

definition validate :: "config \<Rightarrow> string list" where
  "validate c = validate_loop [] (dict_items c)"

text \<open>The names of the fields whose value is false in Python's sense, in field order.\<close>

definition empty_fields :: "config \<Rightarrow> string list" where
  "empty_fields c = map fst (filter (\<lambda>(field, v). \<not> truthy v) (dict_items c))"

section \<open>Text extraction and keyword detection (check_discount, lines 94 to 99)\<close>

text \<open>
  Characters are modelled as ASCII: \<open>lower_char\<close> maps the capital letters A to Z to
  the small ones and leaves every other character unchanged, as \<open>str.lower\<close> does on
  ASCII text; \<open>is_space\<close> holds of the ASCII characters that \<open>str.strip\<close> removes
  (codes 9 to 13, 28 to 31 and 32).
\<close>

definition lower_char :: "char \<Rightarrow> char" where
  "lower_char c =
     (let n = (of_char c :: nat) in if 65 \<le> n \<and> n \<le> 90 then char_of (n + 32) else c)"

definition lower :: "string \<Rightarrow> string" where
  "lower s = map lower_char s"

definition is_space :: "char \<Rightarrow> bool" where
  "is_space c =
     (let n = (of_char c :: nat) in (9 \<le> n \<and> n \<le> 13) \<or> (28 \<le> n \<and> n \<le> 32))"

definition strip :: "string \<Rightarrow> string" where
  "strip s = rev (dropWhile is_space (rev (dropWhile is_space s)))"

text \<open>\<open>sep.join(parts)\<close>.\<close>

fun join :: "string \<Rightarrow> string list \<Rightarrow> string" where
  "join sep [] = []"
| "join sep [x] = x"
| "join sep (x # y # rest) = x @ sep @ join sep (y # rest)"

text \<open>
  The value of \<open>BeautifulSoup(response.text, 'html.parser')\<close> is a tree. Its nodes are
  tags with a name and children, and strings of three kinds: plain text
  (\<open>NavigableString\<close>), \<open>CData\<close>, and the string classes that \<open>get_text\<close> skips
  (comments, declarations, processing instructions, doctypes), here \<open>OtherString\<close>.
  A document is the list of the children of the root.
\<close>

datatype node =
    NavigableString string
  | CData string
  | OtherString string
  | Tag string "node list"

text \<open>
  Lines 95 and 96: every tag that \<open>soup(names)\<close> finds, at any depth, is decomposed,
  which removes it from the tree together with everything below it.
\<close>

function decompose_all :: "string list \<Rightarrow> node list \<Rightarrow> node list" where
  "decompose_all names [] = []"
| "decompose_all names (Tag n children # rest) =
     (if n \<in> set names then decompose_all names rest
      else Tag n (decompose_all names children) # decompose_all names rest)"
| "decompose_all names (NavigableString s # rest) = NavigableString s # decompose_all names rest"
| "decompose_all names (CData s # rest) = CData s # decompose_all names rest"
| "decompose_all names (OtherString s # rest) = OtherString s # decompose_all names rest"
  by pat_completeness auto
termination
  by (relation "measure (\<lambda>(names, ns). size_list size ns)") auto

text \<open>
  The strings \<open>get_text\<close> collects: the \<open>NavigableString\<close> and \<open>CData\<close> descendants,
  in document order.
\<close>

function all_strings :: "node list \<Rightarrow> string list" where
  "all_strings [] = []"
| "all_strings (NavigableString s # rest) = s # all_strings rest"
| "all_strings (CData s # rest) = s # all_strings rest"
| "all_strings (OtherString s # rest) = all_strings rest"
| "all_strings (Tag n children # rest) = all_strings children @ all_strings rest"
  by pat_completeness auto
termination
  by (relation "measure (size_list size)") auto

text \<open>
  \<open>get_text(separator, strip=True)\<close>: every string is stripped, the empty ones are
  dropped, the others are joined with the separator.
\<close>

definition get_text :: "string \<Rightarrow> node list \<Rightarrow> string" where
  "get_text separator soup =
     join separator (filter (\<lambda>s. s \<noteq> []) (map strip (all_strings soup)))"

definition removed_tags :: "string list" where
  "removed_tags = [''script'', ''style'', ''noscript'']"

text \<open>Lines 95 to 98: the lower-cased text in which the keywords are searched.\<close>

definition page_text :: "node list \<Rightarrow> string" where
  "page_text soup = lower (get_text '' '' (decompose_all removed_tags soup))"

text \<open>
  The keyword set \<open>self.keywords\<close> of lines 57 to 61. A Python set has no order
  of its own: the list enumerates its elements, and the model uses \<open>set monitor_keywords\<close>
  and the set of the found keywords only, never the order of the list.
\<close>

definition monitor_keywords :: "string list" where
  "monitor_keywords = [''sale'', ''discount'', ''off'', ''promo'', ''coupon'', ''clearance'',
                      ''% off'', ''special offer'']"

text \<open>Line 99: \<open>[kw for kw in self.keywords if kw in text]\<close>; \<open>in\<close> is substring containment.\<close>

definition found_keywords :: "string list \<Rightarrow> string \<Rightarrow> string list" where
  "found_keywords kws text = filter (\<lambda>kw. sublist kw text) kws"

text \<open>
  The strings of a document that lie in no \<open>script\<close>, \<open>style\<close> or \<open>noscript\<close>
  subtree: the visible text of the specification, defined on the tree as it was parsed,
  without removing anything.
\<close>

function visible_strings :: "node list \<Rightarrow> string list" where
  "visible_strings [] = []"
| "visible_strings (NavigableString s # rest) = s # visible_strings rest"
| "visible_strings (CData s # rest) = s # visible_strings rest"
| "visible_strings (OtherString s # rest) = visible_strings rest"
| "visible_strings (Tag n children # rest) =
     (if n \<in> set removed_tags then visible_strings rest
      else visible_strings children @ visible_strings rest)"
  by pat_completeness auto
termination
  by (relation "measure (size_list size)") auto

section \<open>Exceptions, outcomes of external calls, observable actions\<close>

text \<open>
  The exceptions that the calls of the program can raise, by the classes its
  \<open>except\<close> clauses tell apart: \<open>KeyboardInterrupt\<close> (the operator's interrupt,
  not a subclass of \<open>Exception\<close>), \<open>requests.RequestException\<close> (network error,
  timeout, the \<open>HTTPError\<close> of \<open>raise_for_status\<close>), \<open>smtplib.SMTPException\<close>,
  and any other subclass of \<open>Exception\<close>. Each carries the text \<open>str(e)\<close>.
\<close>

datatype exn =
    KeyboardInterrupt
  | RequestException string
  | SMTPException string
  | OtherException string

fun exn_str :: "exn \<Rightarrow> string" where
  "exn_str KeyboardInterrupt = []"
| "exn_str (RequestException s) = s"
| "exn_str (SMTPException s) = s"
| "exn_str (OtherException s) = s"

text \<open>
  A call into a library or the operating system either returns a value or raises. What
  it does is not decided by the program: it is an input of the model.
\<close>

datatype 'a outcome = Returns 'a | Raises exn

text \<open>
  The log messages of the program, one constructor for each \<open>logging\<close> call (the
  source's texts are Chinese): line 151 \<open>ServiceStarted\<close>, line 102
  \<open>KeywordsFound\<close> with the set of the found keywords (the text of the record lists
  them, separated by a comma and a space, in the order in which Python iterates over the
  set \<open>self.keywords\<close>; that order changes from one process to the next and is not
  part of the model, which keeps the set of the listed keywords), line 108
  \<open>RequestError\<close>, line 111 \<open>CheckError\<close>, line 139 \<open>MailSent\<close>, line 143
  \<open>SmtpError\<close>, line 146 \<open>MailFailed\<close>, line 161 \<open>InCooldown\<close>, line 163
  \<open>NoDiscount\<close>, line 168 \<open>UserInterrupt\<close>, line 171 \<open>LoopError\<close>.
\<close>

datatype level = INFO | ERROR

datatype message =
    ServiceStarted
  | KeywordsFound "string set"
  | RequestError string
  | CheckError string
  | MailSent
  | SmtpError string
  | MailFailed string
  | InCooldown
  | NoDiscount
  | UserInterrupt
  | LoopError string

text \<open>
  What the process does to the world: \<open>print\<close>, a log record, the HTTP GET of line 87
  (URL, headers, timeout), the SMTP session of lines 131 to 138 (server, port, sender,
  receiver), a completed \<open>time.sleep\<close>.
\<close>

datatype action =
    Print string
  | Log level message
  | HttpGet string "(string \<times> string) list" nat
  | SmtpSession string int string string
  | Sleep int

section \<open>The monitor (class GregoryMonitor)\<close>

text \<open>
  The mutable state of a monitor. \<open>time.time()\<close> is a float; clock readings are
  modelled as real numbers, without floating-point rounding. The keyword set is never
  assigned after \<open>__init__\<close> and is the constant \<open>monitor_keywords\<close>.
\<close>

record monitor =
  config :: config
  last_sent :: real
  cooldown :: int

definition GregoryMonitor :: "config \<Rightarrow> monitor" where
  "GregoryMonitor c = \<lparr>config = c, last_sent = 0, cooldown = 86400\<rparr>"

subsection \<open>The fetch, lines 87 to 92\<close>

text \<open>
  What \<open>requests.get\<close> returns: a response with its status code, reason phrase, URL
  and text. The library follows the redirects 301, 302, 303, 307 and 308 by itself;
  the response is the last one of the chain.
\<close>

record response =
  status_code :: nat
  reason :: string
  url :: string
  resp_text :: string

text \<open>
  \<open>response.raise_for_status()\<close> belongs to the library \<open>requests\<close>, not to the
  repository. It raises \<open>HTTPError\<close>, a \<open>RequestException\<close>, when the status code
  is from 400 to 499 (client error) or from 500 to 599 (server error), with a text made
  of the code, the kind of error, the reason and the URL; for every other status code it
  returns. The codes for which it raises have three digits.
\<close>

definition status_digits :: "nat \<Rightarrow> string" where
  "status_digits n =
     [char_of (48 + n div 100), char_of (48 + n div 10 mod 10), char_of (48 + n mod 10)]"

definition raise_for_status :: "response \<Rightarrow> unit outcome" where
  "raise_for_status r =
     (if 400 \<le> status_code r \<and> status_code r < 500
      then Raises (RequestException
             (status_digits (status_code r) @ '' Client Error: '' @ reason r @
              '' for url: '' @ url r))
      else if 500 \<le> status_code r \<and> status_code r < 600
      then Raises (RequestException
             (status_digits (status_code r) @ '' Server Error: '' @ reason r @
              '' for url: '' @ url r))
      else Returns ())"

text \<open>
  Lines 87 to 92 as a whole. \<open>got\<close> is the outcome of \<open>requests.get\<close>: a response,
  or an exception (connection error, timeout, too many redirects). The result is the
  text of the response, or the exception that left these lines.
\<close>

definition fetch_page :: "response outcome \<Rightarrow> string outcome" where
  "fetch_page got =
     (case got of
        Raises e \<Rightarrow> Raises e
      | Returns r \<Rightarrow>
          (case raise_for_status r of
             Raises e \<Rightarrow> Raises e
           | Returns u \<Rightarrow> Returns (resp_text r)))"

subsection \<open>check_discount\<close>

text \<open>
  The \<open>try\<close> body, lines 82 to 105. \<open>fetched\<close> is the outcome of lines 87 to 92
  (\<open>requests.get\<close> and \<open>raise_for_status\<close>, see \<open>fetch_page\<close>): the response
  text or an exception. \<open>html_parser\<close> is the outcome of
  \<open>BeautifulSoup(text, 'html.parser')\<close> on a text.
\<close>

definition check_try ::
  "(string \<Rightarrow> node list outcome) \<Rightarrow> string outcome \<Rightarrow> action list \<times> bool outcome" where
  "check_try html_parser fetched =
     (case fetched of
        Raises e \<Rightarrow> ([], Raises e)
      | Returns html \<Rightarrow>
          (case html_parser html of
             Raises e \<Rightarrow> ([], Raises e)
           | Returns soup \<Rightarrow>
               (let text = page_text soup;
                    found = found_keywords monitor_keywords text
                in if found \<noteq> []
                   then ([Log INFO (KeywordsFound (set found))], Returns True)
                   else ([], Returns False))))"

text \<open>
  The \<open>except\<close> clauses, lines 107 to 112, in their order. \<open>except Exception\<close> does
  not catch \<open>KeyboardInterrupt\<close>, which leaves the method.
\<close>

fun check_handlers :: "exn \<Rightarrow> action list \<times> bool outcome" where
  "check_handlers (RequestException s) = ([Log ERROR (RequestError s)], Returns False)"
| "check_handlers KeyboardInterrupt = ([], Raises KeyboardInterrupt)"
| "check_handlers e = ([Log ERROR (CheckError (exn_str e))], Returns False)"

text \<open>The request of lines 82 to 91: the URL, the two headers, the timeout of 15 seconds.\<close>

definition http_request :: "monitor \<Rightarrow> action" where
  "http_request m =
     HttpGet (website_url (config m))
       [(''User-Agent'', user_agent (config m)), (''Referer'', website_url (config m))] 15"

definition check_discount ::
  "(string \<Rightarrow> node list outcome) \<Rightarrow> monitor \<Rightarrow> string outcome \<Rightarrow> action list \<times> bool outcome" where
  "check_discount html_parser m fetched =
     (case check_try html_parser fetched of
        (acts, Returns b) \<Rightarrow> (http_request m # acts, Returns b)
      | (acts, Raises e) \<Rightarrow>
          (case check_handlers e of (acts', r) \<Rightarrow> (http_request m # acts @ acts', r)))"

subsection \<open>send_email\<close>

text \<open>The \<open>except\<close> clauses of \<open>send_email\<close>, lines 142 to 147.\<close>

fun send_handlers :: "exn \<Rightarrow> action list \<times> bool outcome" where
  "send_handlers (SMTPException s) = ([Log ERROR (SmtpError s)], Returns False)"
| "send_handlers KeyboardInterrupt = ([], Raises KeyboardInterrupt)"
| "send_handlers e = ([Log ERROR (MailFailed (exn_str e))], Returns False)"

text \<open>
  \<open>session\<close> is the outcome of the \<open>try\<close> body up to the end of the \<open>with\<close>
  block (lines 117 to 138): it returns, or some call in it raises.
\<close>

definition smtp_session :: "monitor \<Rightarrow> action" where
  "smtp_session m =
     SmtpSession (smtp_server (config m)) (smtp_port (config m))
       (sender (config m)) (receiver (config m))"

definition send_email :: "monitor \<Rightarrow> unit outcome \<Rightarrow> action list \<times> bool outcome" where
  "send_email m session =
     (case session of
        Returns u \<Rightarrow> ([smtp_session m, Log INFO MailSent], Returns True)
      | Raises e \<Rightarrow> (case send_handlers e of (acts, r) \<Rightarrow> (smtp_session m # acts, r)))"

subsection \<open>run\<close>

text \<open>
  What the world does during one pass of the \<open>while\<close> loop: the outcome of
  \<open>requests.get\<close>, the reading of \<open>time.time()\<close> in line 156, the outcome of the SMTP session, the
  outcome of \<open>time.sleep(check_interval)\<close> in line 165 (it raises \<open>ValueError\<close> on a
  negative interval and \<open>KeyboardInterrupt\<close> when the operator interrupts it), and
  whether the operator interrupts the \<open>time.sleep(300)\<close> of line 172. A field is read
  only if the pass reaches the call.
\<close>

record cycle_env =
  got :: "response outcome"
  now :: real
  session :: "unit outcome"
  sleep :: "unit outcome"
  recovery_interrupted :: bool

text \<open>The outcome of lines 87 to 92 in a pass.\<close>

definition fetched :: "cycle_env \<Rightarrow> string outcome" where
  "fetched env = fetch_page (got env)"

text \<open>Line 165.\<close>

definition sleep_interval :: "monitor \<Rightarrow> action list \<Rightarrow> cycle_env \<Rightarrow> monitor \<times> action list \<times> unit outcome" where
  "sleep_interval m acts env =
     (case sleep env of
        Returns u \<Rightarrow> (m, acts @ [Sleep (check_interval (config m))], Returns ())
      | Raises e \<Rightarrow> (m, acts, Raises e))"

text \<open>The \<open>try\<close> body of the loop, lines 155 to 165.\<close>

definition loop_try ::
  "(string \<Rightarrow> node list outcome) \<Rightarrow> monitor \<Rightarrow> cycle_env \<Rightarrow> monitor \<times> action list \<times> unit outcome" where
  "loop_try html_parser m env =
     (case check_discount html_parser m (fetched env) of
        (a1, Raises e) \<Rightarrow> (m, a1, Raises e)
      | (a1, Returns True) \<Rightarrow>
          (let current_time = now env
           in if current_time - last_sent m > of_int (cooldown m)
              then (case send_email m (session env) of
                      (a2, Raises e) \<Rightarrow> (m, a1 @ a2, Raises e)
                    | (a2, Returns True) \<Rightarrow>
                        sleep_interval (m\<lparr>last_sent := current_time\<rparr>) (a1 @ a2) env
                    | (a2, Returns False) \<Rightarrow> sleep_interval m (a1 @ a2) env)
              else sleep_interval m (a1 @ [Log INFO InCooldown]) env)
      | (a1, Returns False) \<Rightarrow> sleep_interval m (a1 @ [Log INFO NoDiscount]) env)"

text \<open>
  How one pass of the loop ends: the loop goes on, \<open>break\<close> leaves it, or an
  exception leaves \<open>run\<close> uncaught.
\<close>

datatype flow = Continue | Break | Propagate exn

text \<open>
  One pass: the \<open>try\<close> statement of lines 154 to 172. An exception raised inside an
  \<open>except\<close> clause is not handled by the other clauses of the same \<open>try\<close>.
\<close>

definition iteration ::
  "(string \<Rightarrow> node list outcome) \<Rightarrow> monitor \<Rightarrow> cycle_env \<Rightarrow> monitor \<times> action list \<times> flow" where
  "iteration html_parser m env =
     (case loop_try html_parser m env of
        (m', acts, Returns u) \<Rightarrow> (m', acts, Continue)
      | (m', acts, Raises KeyboardInterrupt) \<Rightarrow> (m', acts @ [Log INFO UserInterrupt], Break)
      | (m', acts, Raises e) \<Rightarrow>
          (if recovery_interrupted env
           then (m', acts @ [Log ERROR (LoopError (exn_str e))], Propagate KeyboardInterrupt)
           else (m', acts @ [Log ERROR (LoopError (exn_str e)), Sleep 300], Continue)))"

text \<open>The actions of a pass and the way it ended.\<close>

definition pass_actions :: "monitor \<times> action list \<times> flow \<Rightarrow> action list" where
  "pass_actions pass = fst (snd pass)"

definition pass_flow :: "monitor \<times> action list \<times> flow \<Rightarrow> flow" where
  "pass_flow pass = snd (snd pass)"

text \<open>
  The \<open>while True\<close> loop, run against the world's behaviour in its first passes, one
  \<open>cycle_env\<close> for each. The result lists, for every pass that was executed, the
  state after it, its actions, and how it ended. The loop has no exit condition, so
  when the list of environments is used up and the last pass ended with \<open>Continue\<close>,
  the loop is still running.
\<close>

fun run_loop ::
  "(string \<Rightarrow> node list outcome) \<Rightarrow> monitor \<Rightarrow> cycle_env list \<Rightarrow> (monitor \<times> action list \<times> flow) list" where
  "run_loop html_parser m [] = []"
| "run_loop html_parser m (env # envs) =
     (case iteration html_parser m env of
        (m', acts, fl) \<Rightarrow>
          (m', acts, fl) # (if fl = Continue then run_loop html_parser m' envs else []))"

datatype ending = Running | Returned | Uncaught exn

text \<open>
  How the loop stands after its passes: still running, left by \<open>break\<close> (then
  \<open>run\<close> returns), or left by an exception that nothing catches.
\<close>

definition loop_ending :: "(monitor \<times> action list \<times> flow) list \<Rightarrow> ending" where
  "loop_ending passes =
     (if passes = [] then Running
      else case pass_flow (last passes) of
             Continue \<Rightarrow> Running
           | Break \<Rightarrow> Returned
           | Propagate e \<Rightarrow> Uncaught e)"

definition run ::
  "(string \<Rightarrow> node list outcome) \<Rightarrow> monitor \<Rightarrow> cycle_env list \<Rightarrow> action list \<times> ending" where
  "run html_parser m envs =
     (let passes = run_loop html_parser m envs
      in (Log INFO ServiceStarted # concat (map pass_actions passes), loop_ending passes))"

text \<open>
  A pass detects a match when \<open>check_discount\<close> returns True in it. The result of
  \<open>check_discount\<close> depends on the world and on the parser only, not on the state of
  the monitor.
\<close>

definition detects :: "(string \<Rightarrow> node list outcome) \<Rightarrow> cycle_env \<Rightarrow> bool" where
  "detects html_parser env \<longleftrightarrow>
     (\<forall>m. snd (check_discount html_parser m (fetched env)) = Returns True)"

text \<open>The state in which a run has arrived after the passes it has executed.\<close>

definition final_state :: "monitor \<Rightarrow> (monitor \<times> action list \<times> flow) list \<Rightarrow> monitor" where
  "final_state m passes = last (m # map fst passes)"

text \<open>
  A notification counts as sent when \<open>send_email\<close> reports success, which it does by
  the log record of line 139 and the result True.
\<close>

definition notifications :: "action list \<Rightarrow> nat" where
  "notifications acts = count_list acts (Log INFO MailSent)"

subsection \<open>main\<close>

text \<open>
  \<open>main\<close>, from line 178 on; \<open>c\<close> is the configuration that \<open>Config.from_env()\<close>
  returned. The whole of \<open>main\<close>, with line 176, is \<open>main_env\<close> below.
\<close>

definition main ::
  "(string \<Rightarrow> node list outcome) \<Rightarrow> config \<Rightarrow> cycle_env list \<Rightarrow> action list \<times> ending" where
  "main html_parser c envs =
     (let errors = validate c
      in if errors \<noteq> [] then (map Print errors, Returned)
         else run html_parser (GregoryMonitor c) envs)"

text \<open>
  The exit status of the interpreter: 0 when \<open>main\<close> returns, not 0 (here 1) when
  an exception leaves it; none while the loop runs.
\<close>

fun exit_code :: "ending \<Rightarrow> int option" where
  "exit_code Running = None"
| "exit_code Returned = Some 0"
| "exit_code (Uncaught e) = Some 1"

subsection \<open>Config.from_env and the whole of main\<close>

text \<open>
  \<open>int(s)\<close> on a string, in base 10: white space around the literal is dropped, a
  sign may come first, then decimal digits, where single underscores may stand between
  digits. Any other text, the empty string among them, raises \<open>ValueError\<close>, which
  is \<open>None\<close> here. Digits are the ASCII digits; the interpreter's limit on the length
  of a literal (several thousand digits) is not modelled.
\<close>

definition digit_val :: "char \<Rightarrow> nat option" where
  "digit_val c =
     (let n = (of_char c :: nat) in if 48 \<le> n \<and> n \<le> 57 then Some (n - 48) else None)"

fun digits_acc :: "nat \<Rightarrow> string \<Rightarrow> nat option" where
  "digits_acc acc [] = Some acc"
| "digits_acc acc [c] =
     (case digit_val c of None \<Rightarrow> None | Some v \<Rightarrow> Some (10 * acc + v))"
| "digits_acc acc (c # d # rest) =
     (if c = CHR ''_''
      then (case digit_val d of None \<Rightarrow> None | Some v \<Rightarrow> digits_acc (10 * acc + v) rest)
      else (case digit_val c of None \<Rightarrow> None | Some v \<Rightarrow> digits_acc (10 * acc + v) (d # rest)))"

definition digits_value :: "string \<Rightarrow> nat option" where
  "digits_value s =
     (case s of
        [] \<Rightarrow> None
      | c # rest \<Rightarrow> (case digit_val c of None \<Rightarrow> None | Some v \<Rightarrow> digits_acc v rest))"

definition py_int :: "string \<Rightarrow> int option" where
  "py_int s =
     (case strip s of
        [] \<Rightarrow> None
      | c # rest \<Rightarrow>
          if c = CHR ''-'' then map_option (\<lambda>n. - int n) (digits_value rest)
          else if c = CHR ''+'' then map_option int (digits_value rest)
          else map_option int (digits_value (c # rest)))"

text \<open>
  The environment after \<open>load_dotenv()\<close> is a map from names to values.
  \<open>os.getenv(name, default)\<close> gives the default when the name is not set; the two
  integer settings then go through \<open>int\<close>, whose \<open>ValueError\<close> nothing catches.
  Its text quotes the rejected string.
\<close>

definition getenv_str :: "(string \<rightharpoonup> string) \<Rightarrow> string \<Rightarrow> string" where
  "getenv_str environ name = (case environ name of None \<Rightarrow> [] | Some v \<Rightarrow> v)"

definition getenv_int :: "(string \<rightharpoonup> string) \<Rightarrow> string \<Rightarrow> int \<Rightarrow> int outcome" where
  "getenv_int environ name dflt =
     (case environ name of
        None \<Rightarrow> Returns dflt
      | Some v \<Rightarrow>
          (case py_int v of
             Some n \<Rightarrow> Returns n
           | None \<Rightarrow>
               Raises (OtherException
                 (''invalid literal for int() with base 10: '' @ [CHR 0x27] @ v @ [CHR 0x27]))))"

text \<open>Lines 29 to 42. The arguments are evaluated in the order in which they are written.\<close>

definition from_env :: "(string \<rightharpoonup> string) \<Rightarrow> config outcome" where
  "from_env environ =
     (case getenv_int environ ''CHECK_INTERVAL'' 1800 of
        Raises e \<Rightarrow> Raises e
      | Returns interval \<Rightarrow>
          (case getenv_int environ ''SMTP_PORT'' 587 of
             Raises e \<Rightarrow> Raises e
           | Returns port \<Rightarrow>
               Returns
                 \<lparr>website_url = getenv_str environ ''WEBSITE_URL'',
                  check_interval = interval,
                  smtp_server = getenv_str environ ''SMTP_SERVER'',
                  smtp_port = port,
                  email_user = getenv_str environ ''EMAIL_USER'',
                  email_password = getenv_str environ ''EMAIL_PWD'',
                  sender = getenv_str environ ''SENDER'',
                  receiver = getenv_str environ ''RECEIVER'',
                  user_agent = getenv_str environ ''USER_AGENT''\<rparr>))"

text \<open>
  The whole of \<open>main\<close>, lines 174 to 185, started in an environment: line 176 reads
  the configuration, and an exception raised there leaves \<open>main\<close>; the rest is
  \<open>main\<close> above.
\<close>

definition main_env ::
  "(string \<Rightarrow> node list outcome) \<Rightarrow> (string \<rightharpoonup> string) \<Rightarrow> cycle_env list \<Rightarrow>
     action list \<times> ending" where
  "main_env html_parser environ envs =
     (case from_env environ of
        Raises e \<Rightarrow> ([], Uncaught e)
      | Returns c \<Rightarrow> main html_parser c envs)"

section \<open>Example inputs\<close>

text \<open>A configuration with every field set, used to evaluate the model.\<close>

definition example_config :: config where
  "example_config =
     \<lparr>website_url = ''https://shop.example/'', check_interval = 1800,
      smtp_server = ''smtp.example'', smtp_port = 587, email_user = ''user'',
      email_password = ''secret'', sender = ''monitor@shop.example'',
      receiver = ''owner@shop.example'', user_agent = ''Mozilla/5.0''\<rparr>"

text \<open>
  Example documents: the text of a response and the tree that \<open>html.parser\<close> builds
  from it. \<open>example_parser\<close> knows these documents and raises on any other text, as
  the parser does with \<open>ParserRejectedMarkup\<close> on markup it rejects.
\<close>

definition example_pages :: "(string \<times> node list) list" where
  "example_pages =
     [(''<script>sale</script><p>Welcome</p>'',
         [Tag ''script'' [NavigableString ''sale''], Tag ''p'' [NavigableString ''Welcome'']]),
      (''<p>Welcome</p>'', [Tag ''p'' [NavigableString ''Welcome'']]),
      (''<p>Big SALE today</p>'', [Tag ''p'' [NavigableString ''Big SALE today'']]),
      (''<h1>Discount</h1>'', [Tag ''h1'' [NavigableString ''Discount'']]),
      (''<p>Fresh coffee</p>'', [Tag ''p'' [NavigableString ''Fresh coffee'']]),
      (''<p>Our office</p>'', [Tag ''p'' [NavigableString ''Our office'']]),
      (''<p>A new offer</p>'', [Tag ''p'' [NavigableString ''A new offer'']]),
      (''<p>S<b>ALE</b></p>'',
         [Tag ''p'' [NavigableString ''S'', Tag ''b'' [NavigableString ''ALE'']]]),
      (''<p>discount sale</p>'', [Tag ''p'' [NavigableString ''discount sale'']])]"

definition example_parser :: "string \<Rightarrow> node list outcome" where
  "example_parser html =
     (case map_of example_pages html of
        Some soup \<Rightarrow> Returns soup
      | None \<Rightarrow> Raises (OtherException ''cannot parse''))"

text \<open>
  Example behaviours of the world in one pass. In \<open>quiet_env\<close> the page has no
  keyword, in \<open>match_env\<close> it has one; the response has status 200, the clock reads
  1700000000, the SMTP session and the sleep return.
\<close>

definition ok_page :: "string \<Rightarrow> response" where
  "ok_page html =
     \<lparr>status_code = 200, reason = ''OK'', url = ''https://shop.example/'', resp_text = html\<rparr>"

definition quiet_env :: cycle_env where
  "quiet_env =
     \<lparr>got = Returns (ok_page ''<p>Welcome</p>''), now = 1700000000, session = Returns (),
      sleep = Returns (), recovery_interrupted = False\<rparr>"

definition match_env :: cycle_env where
  "match_env = quiet_env\<lparr>got := Returns (ok_page ''<h1>Discount</h1>'')\<rparr>"

text \<open>
  An environment in which all nine settings are present and not empty; it gives
  \<open>example_config\<close>.
\<close>

definition example_environ :: "string \<rightharpoonup> string" where
  "example_environ =
     map_of
       [(''WEBSITE_URL'', ''https://shop.example/''), (''CHECK_INTERVAL'', ''1800''),
        (''SMTP_SERVER'', ''smtp.example''), (''SMTP_PORT'', ''587''),
        (''EMAIL_USER'', ''user''), (''EMAIL_PWD'', ''secret''),
        (''SENDER'', ''monitor@shop.example''), (''RECEIVER'', ''owner@shop.example''),
        (''USER_AGENT'', ''Mozilla/5.0'')]"

section \<open>Validation lemmas\<close>

lemma validate_loop_acc:
  "validate_loop errors items =
     errors @ map (missing_msg \<circ> fst) (filter (\<lambda>(field, v). \<not> truthy v) items)"
  by (induction items arbitrary: errors) auto

lemma validate_empty_fields: "validate c = map missing_msg (empty_fields c)"
  by (simp add: validate_def empty_fields_def validate_loop_acc)

lemma missing_msg_names_field: "sublist field (missing_msg field)"
  by (simp add: missing_msg_def)

lemma empty_fields_check_interval:
  "check_interval c = 0 \<Longrightarrow> ''check_interval'' \<in> set (empty_fields c)"
  by (simp add: empty_fields_def dict_items_def)

lemma empty_fields_smtp_port:
  "smtp_port c = 0 \<Longrightarrow> ''smtp_port'' \<in> set (empty_fields c)"
  by (simp add: empty_fields_def dict_items_def)

text \<open>No field is reported exactly when no string field is empty and no integer field is 0.\<close>

lemma empty_fields_Nil_iff:
  "empty_fields c = [] \<longleftrightarrow>
     website_url c \<noteq> [] \<and> check_interval c \<noteq> 0 \<and> smtp_server c \<noteq> [] \<and> smtp_port c \<noteq> 0 \<and>
     email_user c \<noteq> [] \<and> email_password c \<noteq> [] \<and> sender c \<noteq> [] \<and> receiver c \<noteq> [] \<and>
     user_agent c \<noteq> []"
  by (simp add: empty_fields_def dict_items_def)

section \<open>Lemmas on text extraction\<close>

text \<open>Removing the three kinds of subtree and collecting the strings gives the visible strings.\<close>

lemma all_strings_decompose:
  "all_strings (decompose_all removed_tags soup) = visible_strings soup"
  by (induction soup rule: visible_strings.induct) simp_all

lemma is_space_lower_char: "is_space (lower_char c) = is_space c"
  by (auto simp add: lower_char_def is_space_def Let_def)

lemma lower_strip: "lower (strip s) = strip (lower s)"
  by (simp add: lower_def strip_def rev_map dropWhile_map comp_def is_space_lower_char)

lemma lower_join: "lower (join sep xs) = join (lower sep) (map lower xs)"
  by (induction sep xs rule: join.induct) (simp_all add: lower_def)

lemma sublist_join: "x \<in> set xs \<Longrightarrow> sublist x (join sep xs)"
proof (induction sep xs rule: join.induct)
  case (1 sep)
  then show ?case by simp
next
  case (2 sep y)
  then show ?case by simp
next
  case (3 sep y z rest)
  show ?case
  proof (cases "x = y")
    case True
    then show ?thesis by simp
  next
    case False
    with 3 have "sublist x (join sep (z # rest))" by simp
    then have "sublist x ((y @ sep) @ join sep (z # rest))"
      unfolding sublist_append by blast
    then show ?thesis by simp
  qed
qed

lemma dropWhile_keeps:
  "ys \<noteq> [] \<Longrightarrow> \<not> P (hd ys) \<Longrightarrow> \<exists>ps'. dropWhile P (ps @ ys) = ps' @ ys"
proof (induction ps)
  case Nil
  then have "dropWhile P ys = ys" by (cases ys) simp_all
  then show ?case by simp
next
  case (Cons p ps)
  then show ?case by (cases "P p") auto
qed

lemma sublist_strip:
  assumes "sublist kw s" and "kw \<noteq> []" and "\<not> is_space (hd kw)" and "\<not> is_space (last kw)"
  shows "sublist kw (strip s)"
proof -
  from assms(1) obtain ps ss where s: "s = ps @ kw @ ss" by (auto simp: sublist_def)
  from assms(2,3) have "kw @ ss \<noteq> []" "\<not> is_space (hd (kw @ ss))" by simp_all
  then obtain ps' where 1: "dropWhile is_space (ps @ kw @ ss) = ps' @ kw @ ss"
    using dropWhile_keeps by blast
  from assms(2,4) have "rev kw @ rev ps' \<noteq> []" "\<not> is_space (hd (rev kw @ rev ps'))"
    by (simp_all add: hd_rev)
  then obtain ss' where 2: "dropWhile is_space (rev ss @ rev kw @ rev ps') = ss' @ rev kw @ rev ps'"
    using dropWhile_keeps by blast
  have "strip s = ps' @ kw @ rev ss'"
    by (simp add: strip_def s 1 2)
  then show ?thesis by simp
qed

lemma strip_sublist: "sublist (strip s) s"
proof -
  have "suffix (dropWhile is_space s) s" by (rule suffix_dropWhile)
  moreover have "suffix (dropWhile is_space (rev (dropWhile is_space s))) (rev (dropWhile is_space s))"
    by (rule suffix_dropWhile)
  then have "prefix (strip s) (dropWhile is_space s)"
    by (simp add: strip_def suffix_to_prefix)
  ultimately show ?thesis
    by (meson prefix_imp_sublist suffix_imp_sublist sublist_order.order_trans)
qed

lemma sublist_join_space_free:
  "kw \<noteq> [] \<Longrightarrow> c \<notin> set kw \<Longrightarrow> sublist kw (join [c] xs) \<Longrightarrow> \<exists>x \<in> set xs. sublist kw x"
proof (induction "[c]" xs rule: join.induct)
  case 1
  then show ?case by simp
next
  case (2 x)
  then show ?case by simp
next
  case (3 x y rest)
  from 3(4) have "sublist kw (x @ (c # join [c] (y # rest)))" by simp
  then consider "sublist kw x" | "sublist kw (c # join [c] (y # rest))"
    | xs1 xs2 where "kw = xs1 @ xs2" "suffix xs1 x" "prefix xs2 (c # join [c] (y # rest))"
    unfolding sublist_append by blast
  then show ?case
  proof cases
    case 1
    then show ?thesis by simp
  next
    case 2
    then have "prefix kw (c # join [c] (y # rest)) \<or> sublist kw (join [c] (y # rest))"
      by (simp add: sublist_Cons_right)
    moreover have "\<not> prefix kw (c # join [c] (y # rest))"
      using 3(2,3) by (cases kw) auto
    ultimately have "sublist kw (join [c] (y # rest))" by simp
    with 3 show ?thesis by auto
  next
    case 3
    note three = this
    show ?thesis
    proof (cases xs2)
      case Nil
      with three have "suffix kw x" by simp
      then show ?thesis by auto
    next
      case (Cons a as)
      with three(3) have "a = c" by simp
      with Cons three(1) \<open>c \<notin> set kw\<close> show ?thesis by simp
    qed
  qed
qed

text \<open>Rules that evaluate the character functions on literals.\<close>

lemmas char_eval = lower_def lower_char_def char_of_def bit_Suc_0_iff is_space_def strip_def

text \<open>Rules that evaluate the fetch on the example responses.\<close>

lemmas fetch_eval = fetched_def fetch_page_def raise_for_status_def ok_page_def

text \<open>
  The searched text is the join, with single spaces, of the stripped and lower-cased
  visible strings that are not empty.
\<close>

lemma page_text_parts:
  "page_text soup =
     join '' '' (map lower (filter (\<lambda>s. s \<noteq> []) (map strip (visible_strings soup))))"
  by (simp add: page_text_def get_text_def all_strings_decompose lower_join)
     (simp add: lower_def lower_char_def)

lemma keyword_shape:
  "kw \<in> set monitor_keywords \<Longrightarrow> kw \<noteq> [] \<and> \<not> is_space (hd kw) \<and> \<not> is_space (last kw)"
  by (auto simp add: monitor_keywords_def is_space_def)

lemma visible_keyword_in_text:
  assumes "kw \<noteq> []" and "\<not> is_space (hd kw)" and "\<not> is_space (last kw)"
    and "s \<in> set (visible_strings soup)" and "sublist kw (lower s)"
  shows "sublist kw (page_text soup)"
proof -
  from assms(5,1,2,3) have "sublist kw (strip (lower s))" by (rule sublist_strip)
  then have 1: "sublist kw (lower (strip s))" by (simp add: lower_strip)
  with assms(1) have "lower (strip s) \<noteq> []" by auto
  then have "strip s \<noteq> []" by (auto simp add: lower_def)
  with assms(4) have "lower (strip s) \<in>
      set (map lower (filter (\<lambda>s. s \<noteq> []) (map strip (visible_strings soup))))"
    by auto
  then have "sublist (lower (strip s)) (page_text soup)"
    unfolding page_text_parts by (rule sublist_join)
  with 1 show ?thesis by (rule sublist_order.order_trans)
qed

lemma text_keyword_visible:
  assumes "kw \<noteq> []" and "CHR '' '' \<notin> set kw" and "sublist kw (page_text soup)"
  shows "\<exists>s \<in> set (visible_strings soup). sublist kw (lower s)"
proof -
  from assms(3) have "sublist kw (join [CHR '' '']
      (map lower (filter (\<lambda>s. s \<noteq> []) (map strip (visible_strings soup)))))"
    by (simp add: page_text_parts)
  with assms(1,2) obtain p
    where p: "p \<in> set (map lower (filter (\<lambda>s. s \<noteq> []) (map strip (visible_strings soup))))"
      and kp: "sublist kw p"
    using sublist_join_space_free by blast
  from p obtain s where s: "s \<in> set (visible_strings soup)" and ps: "p = lower (strip s)"
    by auto
  have "sublist (lower (strip s)) (lower s)"
    unfolding lower_def by (rule map_mono_sublist [OF strip_sublist])
  with kp ps have "sublist kw (lower s)"
    using sublist_order.order_trans by blast
  with s show ?thesis by blast
qed

lemma keyword_core:
  "kw \<in> set monitor_keywords \<Longrightarrow>
     \<exists>k \<in> set monitor_keywords. k \<noteq> [] \<and> CHR '' '' \<notin> set k \<and> sublist k kw"
  by (auto simp add: monitor_keywords_def sublist_Cons_right)

lemma found_keywords_iff:
  "kw \<in> set (found_keywords kws text) \<longleftrightarrow> kw \<in> set kws \<and> sublist kw text"
  by (simp add: found_keywords_def)

lemma found_nonempty_visible:
  assumes "found_keywords monitor_keywords (page_text soup) \<noteq> []"
  shows "\<exists>k \<in> set monitor_keywords. \<exists>s \<in> set (visible_strings soup). sublist k (lower s)"
proof -
  from assms obtain kw where "kw \<in> set (found_keywords monitor_keywords (page_text soup))"
    by (cases "found_keywords monitor_keywords (page_text soup)") auto
  then have kw: "kw \<in> set monitor_keywords" and t: "sublist kw (page_text soup)"
    by (simp_all add: found_keywords_iff)
  from kw obtain k where k: "k \<in> set monitor_keywords" "k \<noteq> []" "CHR '' '' \<notin> set k"
    and kk: "sublist k kw"
    using keyword_core by blast
  from kk t have "sublist k (page_text soup)" by (rule sublist_order.order_trans)
  with k(2,3) have "\<exists>s \<in> set (visible_strings soup). sublist k (lower s)"
    by (rule text_keyword_visible)
  with k(1) show ?thesis by blast
qed

lemma check_discount_page:
  "html_parser html = Returns soup \<Longrightarrow>
   check_discount html_parser m (Returns html) =
     (if found_keywords monitor_keywords (page_text soup) = [] then ([http_request m], Returns False)
      else ([http_request m,
             Log INFO (KeywordsFound (set (found_keywords monitor_keywords (page_text soup))))],
            Returns True))"
  by (simp add: check_discount_def check_try_def Let_def)

text \<open>The example parser on the example documents.\<close>

lemma example_parser_simps:
  "example_parser ''<script>sale</script><p>Welcome</p>'' =
     Returns [Tag ''script'' [NavigableString ''sale''], Tag ''p'' [NavigableString ''Welcome'']]"
  "example_parser ''<p>Welcome</p>'' = Returns [Tag ''p'' [NavigableString ''Welcome'']]"
  "example_parser ''<p>Big SALE today</p>'' = Returns [Tag ''p'' [NavigableString ''Big SALE today'']]"
  "example_parser ''<h1>Discount</h1>'' = Returns [Tag ''h1'' [NavigableString ''Discount'']]"
  "example_parser ''<p>Fresh coffee</p>'' = Returns [Tag ''p'' [NavigableString ''Fresh coffee'']]"
  "example_parser ''<p>Our office</p>'' = Returns [Tag ''p'' [NavigableString ''Our office'']]"
  "example_parser ''<p>A new offer</p>'' = Returns [Tag ''p'' [NavigableString ''A new offer'']]"
  "example_parser ''<p>S<b>ALE</b></p>'' =
     Returns [Tag ''p'' [NavigableString ''S'', Tag ''b'' [NavigableString ''ALE'']]]"
  "example_parser ''<p>discount sale</p>'' = Returns [Tag ''p'' [NavigableString ''discount sale'']]"
  "example_parser ''<![UNKNOWN[]]>'' = Raises (OtherException ''cannot parse'')"
  by (simp_all add: example_parser_def example_pages_def)

section \<open>Lemmas on check_discount, send_email and one pass of the loop\<close>

lemma check_discount_raises:
  "e \<noteq> KeyboardInterrupt \<Longrightarrow>
     check_discount html_parser m (Raises e) =
       ([http_request m,
         Log ERROR (case e of RequestException s \<Rightarrow> RequestError s | _ \<Rightarrow> CheckError (exn_str e))],
        Returns False)"
  "check_discount html_parser m (Raises KeyboardInterrupt) =
     ([http_request m], Raises KeyboardInterrupt)"
  by (cases e; simp add: check_discount_def check_try_def)+

lemma check_discount_parse_raises:
  "html_parser html = Raises e \<Longrightarrow> e \<noteq> KeyboardInterrupt \<Longrightarrow>
     check_discount html_parser m (Returns html) =
       ([http_request m,
         Log ERROR (case e of RequestException s \<Rightarrow> RequestError s | _ \<Rightarrow> CheckError (exn_str e))],
        Returns False)"
  "html_parser html = Raises KeyboardInterrupt \<Longrightarrow>
     check_discount html_parser m (Returns html) = ([http_request m], Raises KeyboardInterrupt)"
  by (cases e; simp add: check_discount_def check_try_def)+

lemma check_discount_actions:
  assumes "a \<in> set (fst (check_discount html_parser m resp))"
  shows "a = http_request m \<or> (\<exists>msg. a = Log INFO (KeywordsFound msg)) \<or> (\<exists>msg. a = Log ERROR msg)"
proof (cases resp)
  case (Raises e)
  with assms show ?thesis
    by (cases "e = KeyboardInterrupt") (auto simp add: check_discount_raises)
next
  case (Returns html)
  show ?thesis
  proof (cases "html_parser html")
    case (Raises e)
    with assms Returns show ?thesis
      by (cases "e = KeyboardInterrupt") (auto simp add: check_discount_parse_raises)
  next
    case inner: (Returns soup)
    with assms Returns show ?thesis
      by (auto simp add: check_discount_def check_try_def Let_def split: if_splits)
  qed
qed

lemma check_discount_no_mail:
  "Log INFO MailSent \<notin> set (fst (check_discount html_parser m resp))"
  "smtp_session m' \<notin> set (fst (check_discount html_parser m resp))"
  using check_discount_actions [of _ html_parser m resp]
  by (auto simp add: http_request_def smtp_session_def)

lemma send_email_raises:
  "e \<noteq> KeyboardInterrupt \<Longrightarrow>
     send_email m (Raises e) =
       ([smtp_session m,
         Log ERROR (case e of SMTPException s \<Rightarrow> SmtpError s | _ \<Rightarrow> MailFailed (exn_str e))],
        Returns False)"
  "send_email m (Raises KeyboardInterrupt) = ([smtp_session m], Raises KeyboardInterrupt)"
  "send_email m (Returns u) = ([smtp_session m, Log INFO MailSent], Returns True)"
  by (cases e; simp add: send_email_def)+

lemma send_email_True_iff:
  "snd (send_email m sess) = Returns True \<longleftrightarrow> sess = Returns ()"
proof (cases sess)
  case (Returns u)
  then show ?thesis by (simp add: send_email_raises)
next
  case (Raises e)
  then show ?thesis by (cases "e = KeyboardInterrupt") (simp_all add: send_email_raises)
qed

lemma send_email_False_iff:
  "snd (send_email m sess) = Returns False \<longleftrightarrow> (\<exists>e. sess = Raises e \<and> e \<noteq> KeyboardInterrupt)"
proof (cases sess)
  case (Returns u)
  then show ?thesis by (simp add: send_email_raises)
next
  case (Raises e)
  then show ?thesis by (cases "e = KeyboardInterrupt") (simp_all add: send_email_raises)
qed

lemma send_email_attempt: "smtp_session m \<in> set (fst (send_email m sess))"
proof (cases sess)
  case (Returns u)
  then show ?thesis by (simp add: send_email_raises)
next
  case (Raises e)
  then show ?thesis by (cases "e = KeyboardInterrupt") (simp_all add: send_email_raises)
qed

lemma send_email_mail_sent:
  "Log INFO MailSent \<in> set (fst (send_email m sess)) \<longleftrightarrow> sess = Returns ()"
proof (cases sess)
  case (Returns u)
  then show ?thesis by (simp add: send_email_raises)
next
  case (Raises e)
  then show ?thesis
    by (cases "e = KeyboardInterrupt") (auto simp add: send_email_raises smtp_session_def)
qed

lemma check_discount_result_cases:
  "snd (check_discount html_parser m resp) = Returns True \<or>
   snd (check_discount html_parser m resp) = Returns False \<or>
   snd (check_discount html_parser m resp) = Raises KeyboardInterrupt"
proof (cases resp)
  case (Raises e)
  then show ?thesis
    by (cases "e = KeyboardInterrupt") (simp_all add: check_discount_raises)
next
  case (Returns html)
  show ?thesis
  proof (cases "html_parser html")
    case (Raises e)
    with Returns show ?thesis
      by (cases "e = KeyboardInterrupt") (simp_all add: check_discount_parse_raises)
  next
    case inner: (Returns soup)
    with Returns show ?thesis
      by (simp add: check_discount_def check_try_def Let_def)
  qed
qed


lemma check_discount_result_indep:
  "snd (check_discount html_parser m resp) = snd (check_discount html_parser m' resp)"
  by (simp add: check_discount_def split: prod.splits outcome.splits)

lemma detects_iff:
  "detects html_parser env \<longleftrightarrow> snd (check_discount html_parser m (fetched env)) = Returns True"
  unfolding detects_def using check_discount_result_indep by metis

lemma sleep_interval_state: "fst (sleep_interval m acts env) = m"
  by (simp add: sleep_interval_def split: outcome.splits)

lemma sleep_interval_actions:
  "a \<in> set (fst (snd (sleep_interval m acts env))) \<longleftrightarrow>
     a \<in> set acts \<or> (a = Sleep (check_interval (config m)) \<and> sleep env = Returns ())"
  by (cases "sleep env") (auto simp add: sleep_interval_def)

lemma loop_try_state:
  "fst (loop_try html_parser m env) =
     (if detects html_parser env \<and> now env - last_sent m > of_int (cooldown m) \<and>
         session env = Returns ()
      then m\<lparr>last_sent := now env\<rparr> else m)"
proof -
  obtain a1 r where c: "check_discount html_parser m (fetched env) = (a1, r)"
    by (cases "check_discount html_parser m (fetched env)")
  then have d: "detects html_parser env \<longleftrightarrow> r = Returns True"
    by (simp add: detects_iff [of html_parser env m])
  obtain a2 r2 where s: "send_email m (session env) = (a2, r2)"
    by (cases "send_email m (session env)")
  then have t: "r2 = Returns True \<longleftrightarrow> session env = Returns ()"
    using send_email_True_iff [of m "session env"] by simp
  show ?thesis
    using c d s t
    by (auto simp add: loop_try_def Let_def sleep_interval_state split: outcome.splits bool.splits)
qed

lemma iteration_state_try: "fst (iteration html_parser m env) = fst (loop_try html_parser m env)"
  by (cases "loop_try html_parser m env")
     (auto simp add: iteration_def split: outcome.splits exn.splits)

lemma iteration_state:
  "fst (iteration html_parser m env) =
     (if detects html_parser env \<and> now env - last_sent m > of_int (cooldown m) \<and>
         session env = Returns ()
      then m\<lparr>last_sent := now env\<rparr> else m)"
  by (simp only: iteration_state_try loop_try_state)

lemma loop_try_mail_sent:
  "Log INFO MailSent \<in> set (fst (snd (loop_try html_parser m env))) \<longleftrightarrow>
     detects html_parser env \<and> now env - last_sent m > of_int (cooldown m) \<and>
     session env = Returns ()"
proof -
  obtain a1 r where c: "check_discount html_parser m (fetched env) = (a1, r)"
    by (cases "check_discount html_parser m (fetched env)")
  then have d: "detects html_parser env \<longleftrightarrow> r = Returns True"
    by (simp add: detects_iff [of html_parser env m])
  from c have n: "Log INFO MailSent \<notin> set a1"
    using check_discount_no_mail(1) [of html_parser m "fetched env"] by simp
  obtain a2 r2 where s: "send_email m (session env) = (a2, r2)"
    by (cases "send_email m (session env)")
  then have t: "r2 = Returns True \<longleftrightarrow> session env = Returns ()"
    and u: "Log INFO MailSent \<in> set a2 \<longleftrightarrow> session env = Returns ()"
    using send_email_True_iff [of m "session env"] send_email_mail_sent [of m "session env"]
    by simp_all
  show ?thesis
    using c d n s t u
    by (auto simp add: loop_try_def Let_def sleep_interval_actions split: outcome.splits bool.splits)
qed

lemma loop_try_attempt:
  "smtp_session m \<in> set (fst (snd (loop_try html_parser m env))) \<longleftrightarrow>
     detects html_parser env \<and> now env - last_sent m > of_int (cooldown m)"
proof -
  obtain a1 r where c: "check_discount html_parser m (fetched env) = (a1, r)"
    by (cases "check_discount html_parser m (fetched env)")
  then have d: "detects html_parser env \<longleftrightarrow> r = Returns True"
    by (simp add: detects_iff [of html_parser env m])
  from c have n: "smtp_session m \<notin> set a1"
    using check_discount_no_mail(2) [of m html_parser m "fetched env"] by simp
  obtain a2 r2 where s: "send_email m (session env) = (a2, r2)"
    by (cases "send_email m (session env)")
  then have u: "smtp_session m \<in> set a2"
    using send_email_attempt [of m "session env"] by simp
  have k: "smtp_session m \<noteq> Sleep (check_interval (config m))"
    "smtp_session m \<noteq> Log INFO InCooldown" "smtp_session m \<noteq> Log INFO NoDiscount"
    by (simp_all add: smtp_session_def)
  show ?thesis
    using c d n s u k
    by (auto simp add: loop_try_def Let_def sleep_interval_actions split: outcome.splits bool.splits)
qed

lemma iteration_actions_try:
  "\<exists>extra. pass_actions (iteration html_parser m env) = fst (snd (loop_try html_parser m env)) @ extra \<and>
     set extra \<subseteq> {Log INFO UserInterrupt, Sleep 300} \<union> {a. \<exists>s. a = Log ERROR (LoopError s)}"
  by (cases "loop_try html_parser m env")
     (auto simp add: iteration_def pass_actions_def split: outcome.splits exn.splits)

lemma iteration_mail_sent:
  "Log INFO MailSent \<in> set (pass_actions (iteration html_parser m env)) \<longleftrightarrow>
     detects html_parser env \<and> now env - last_sent m > of_int (cooldown m) \<and>
     session env = Returns ()"
proof -
  from iteration_actions_try [of html_parser m env] obtain extra
    where "pass_actions (iteration html_parser m env) = fst (snd (loop_try html_parser m env)) @ extra"
      and "set extra \<subseteq> {Log INFO UserInterrupt, Sleep 300} \<union> {a. \<exists>s. a = Log ERROR (LoopError s)}"
    by blast
  then have "Log INFO MailSent \<in> set (pass_actions (iteration html_parser m env)) \<longleftrightarrow>
      Log INFO MailSent \<in> set (fst (snd (loop_try html_parser m env)))"
    by auto
  then show ?thesis by (simp only: loop_try_mail_sent)
qed

lemma iteration_attempt:
  "smtp_session m \<in> set (pass_actions (iteration html_parser m env)) \<longleftrightarrow>
     detects html_parser env \<and> now env - last_sent m > of_int (cooldown m)"
proof -
  from iteration_actions_try [of html_parser m env] obtain extra
    where "pass_actions (iteration html_parser m env) = fst (snd (loop_try html_parser m env)) @ extra"
      and "set extra \<subseteq> {Log INFO UserInterrupt, Sleep 300} \<union> {a. \<exists>s. a = Log ERROR (LoopError s)}"
    by blast
  then have "smtp_session m \<in> set (pass_actions (iteration html_parser m env)) \<longleftrightarrow>
      smtp_session m \<in> set (fst (snd (loop_try html_parser m env)))"
    by (auto simp add: smtp_session_def)
  then show ?thesis by (simp only: loop_try_attempt)
qed

text \<open>The example documents in \<open>check_discount\<close>.\<close>

lemma example_check_simps:
  "check_discount example_parser m (Returns ''<h1>Discount</h1>'') =
     ([http_request m, Log INFO (KeywordsFound {''discount''})], Returns True)"
  "check_discount example_parser m (Returns ''<p>Welcome</p>'') = ([http_request m], Returns False)"
proof -
  have 1: "found_keywords monitor_keywords (page_text [Tag ''h1'' [NavigableString ''Discount'']])
     = [''discount'']"
    by (simp add: found_keywords_def monitor_keywords_def page_text_def get_text_def
        removed_tags_def char_eval sublist_Cons_right)
  have 2: "found_keywords monitor_keywords (page_text [Tag ''p'' [NavigableString ''Welcome'']])
     = []"
    by (simp add: found_keywords_def monitor_keywords_def page_text_def get_text_def
        removed_tags_def char_eval sublist_Cons_right)
  show "check_discount example_parser m (Returns ''<h1>Discount</h1>'') =
     ([http_request m, Log INFO (KeywordsFound {''discount''})], Returns True)"
    by (simp add: check_discount_page [where html_parser = example_parser
          and html = "''<h1>Discount</h1>''", OF example_parser_simps(4)] 1)
  show "check_discount example_parser m (Returns ''<p>Welcome</p>'') = ([http_request m], Returns False)"
    by (simp add: check_discount_page [where html_parser = example_parser
          and html = "''<p>Welcome</p>''", OF example_parser_simps(2)] 2)
qed

lemma example_detects:
  "detects example_parser (env\<lparr>got := Returns (ok_page ''<h1>Discount</h1>'')\<rparr>)"
  "\<not> detects example_parser (env\<lparr>got := Returns (ok_page ''<p>Welcome</p>'')\<rparr>)"
  by (simp_all add: detects_def fetch_eval example_check_simps)

section \<open>Lemmas on runs of the loop\<close>

lemma final_state_Nil: "final_state m [] = m"
  by (simp add: final_state_def)

lemma final_state_Cons: "final_state m (pass # passes) = final_state (fst pass) passes"
  by (simp add: final_state_def)

lemma run_loop_Cons:
  "run_loop html_parser m (env # envs) =
     iteration html_parser m env #
       (if pass_flow (iteration html_parser m env) = Continue
        then run_loop html_parser (fst (iteration html_parser m env)) envs else [])"
  by (cases "iteration html_parser m env") (simp add: pass_flow_def)

lemma run_loop_length: "length (run_loop html_parser m envs) \<le> length envs"
  by (induction envs arbitrary: m) (simp_all add: run_loop_Cons del: run_loop.simps(2))

lemma run_loop_snoc:
  assumes "length (run_loop html_parser m (envs @ [env])) = Suc (length envs)"
  shows "length (run_loop html_parser m envs) = length envs \<and>
         last (run_loop html_parser m (envs @ [env])) =
           iteration html_parser (final_state m (run_loop html_parser m envs)) env"
  using assms
proof (induction envs arbitrary: m)
  case Nil
  then show ?case by (simp add: run_loop_Cons final_state_Nil del: run_loop.simps(2))
next
  case (Cons x xs)
  show ?case
  proof (cases "pass_flow (iteration html_parser m x) = Continue")
    case True
    with Cons.prems
    have len: "length (run_loop html_parser (fst (iteration html_parser m x)) (xs @ [env])) = Suc (length xs)"
      by (simp add: run_loop_Cons del: run_loop.simps(2))
    then have "run_loop html_parser (fst (iteration html_parser m x)) (xs @ [env]) \<noteq> []"
      by auto
    with Cons.IH [OF len] True show ?thesis
      by (simp add: run_loop_Cons final_state_Cons del: run_loop.simps(2))
  next
    case False
    with Cons.prems show ?thesis
      by (simp add: run_loop_Cons del: run_loop.simps(2))
  qed
qed

lemma quiet_passes_keep_state:
  "\<forall>env \<in> set envs. \<not> detects html_parser env \<Longrightarrow>
     final_state m (run_loop html_parser m envs) = m"
proof (induction envs arbitrary: m)
  case Nil
  then show ?case by (simp add: final_state_Nil)
next
  case (Cons x xs)
  then have s: "fst (iteration html_parser m x) = m"
    by (simp add: iteration_state)
  from Cons have "final_state m (run_loop html_parser m xs) = m" by simp
  with s show ?case
    by (simp add: run_loop_Cons final_state_Cons final_state_Nil del: run_loop.simps(2))
qed

text \<open>
  Every successful send lies more than the cooldown after the value of \<open>last_sent\<close>
  with which the run began, and two successful sends of one run lie more than the
  cooldown apart.
\<close>

lemma iteration_cooldown: "cooldown (fst (iteration html_parser m env)) = cooldown m"
  by (simp add: iteration_state)

lemma iteration_last_sent_mono:
  "0 \<le> cooldown m \<Longrightarrow> last_sent m \<le> last_sent (fst (iteration html_parser m env))"
  by (simp add: iteration_state)

lemma sent_after_last:
  "0 \<le> cooldown m \<Longrightarrow> j < length (run_loop html_parser m envs) \<Longrightarrow>
   Log INFO MailSent \<in> set (pass_actions (run_loop html_parser m envs ! j)) \<Longrightarrow>
     now (envs ! j) - last_sent m > of_int (cooldown m)"
proof (induction envs arbitrary: m j)
  case Nil
  then show ?case by simp
next
  case (Cons x xs)
  show ?case
  proof (cases j)
    case 0
    with Cons.prems show ?thesis
      by (simp add: run_loop_Cons iteration_mail_sent del: run_loop.simps(2))
  next
    case (Suc k)
    let ?m' = "fst (iteration html_parser m x)"
    from Cons.prems(2) Suc have c: "pass_flow (iteration html_parser m x) = Continue"
      by (auto simp add: run_loop_Cons simp del: run_loop.simps(2) split: if_splits)
    with Cons.prems Suc have k: "k < length (run_loop html_parser ?m' xs)"
      and s: "Log INFO MailSent \<in> set (pass_actions (run_loop html_parser ?m' xs ! k))"
      by (simp_all add: run_loop_Cons del: run_loop.simps(2))
    from Cons.prems(1) have "0 \<le> cooldown ?m'" by (simp add: iteration_cooldown)
    from Cons.IH [OF this k s] have "now (xs ! k) - last_sent ?m' > of_int (cooldown m)"
      by (simp add: iteration_cooldown)
    moreover from Cons.prems(1) have "last_sent m \<le> last_sent ?m'"
      by (rule iteration_last_sent_mono)
    ultimately show ?thesis using Suc by simp
  qed
qed

lemma sends_apart:
  "0 \<le> cooldown m \<Longrightarrow> i < j \<Longrightarrow> j < length (run_loop html_parser m envs) \<Longrightarrow>
   Log INFO MailSent \<in> set (pass_actions (run_loop html_parser m envs ! i)) \<Longrightarrow>
   Log INFO MailSent \<in> set (pass_actions (run_loop html_parser m envs ! j)) \<Longrightarrow>
     now (envs ! j) - now (envs ! i) > of_int (cooldown m)"
proof (induction envs arbitrary: m i j)
  case Nil
  then show ?case by simp
next
  case (Cons x xs)
  let ?m' = "fst (iteration html_parser m x)"
  from Cons.prems(2) obtain k where j: "j = Suc k" by (cases j) auto
  from Cons.prems(3) j have c: "pass_flow (iteration html_parser m x) = Continue"
    by (auto simp add: run_loop_Cons simp del: run_loop.simps(2) split: if_splits)
  with Cons.prems j have k: "k < length (run_loop html_parser ?m' xs)"
    and sk: "Log INFO MailSent \<in> set (pass_actions (run_loop html_parser ?m' xs ! k))"
    by (simp_all add: run_loop_Cons del: run_loop.simps(2))
  from Cons.prems(1) have cd: "0 \<le> cooldown ?m'" by (simp add: iteration_cooldown)
  show ?case
  proof (cases i)
    case 0
    with Cons.prems(4) have "Log INFO MailSent \<in> set (pass_actions (iteration html_parser m x))"
      by (simp add: run_loop_Cons del: run_loop.simps(2))
    then have "last_sent ?m' = now x"
      by (simp add: iteration_state iteration_mail_sent)
    with sent_after_last [OF cd k sk] 0 j show ?thesis
      by (simp add: iteration_cooldown)
  next
    case (Suc i')
    with Cons.prems c j have "i' < k"
      and "Log INFO MailSent \<in> set (pass_actions (run_loop html_parser ?m' xs ! i'))"
      by (simp_all add: run_loop_Cons del: run_loop.simps(2))
    from Cons.IH [OF cd this(1) k this(2) sk] Suc j show ?thesis
      by (simp add: iteration_cooldown)
  qed
qed

lemma notifications_append: "notifications (xs @ ys) = notifications xs + notifications ys"
  by (simp add: notifications_def)

lemma notifications_none: "Log INFO MailSent \<notin> set xs \<Longrightarrow> notifications xs = 0"
  by (simp add: notifications_def)

lemma send_email_notifications:
  "notifications (fst (send_email m sess)) = (if sess = Returns () then 1 else 0)"
proof (cases sess)
  case (Returns u)
  then show ?thesis by (simp add: send_email_raises notifications_def smtp_session_def)
next
  case (Raises e)
  then show ?thesis
    by (cases "e = KeyboardInterrupt")
       (auto simp add: send_email_raises notifications_def smtp_session_def)
qed

lemma sleep_interval_notifications:
  "notifications (fst (snd (sleep_interval m acts env))) = notifications acts"
  by (cases "sleep env") (simp_all add: sleep_interval_def notifications_def)

lemma loop_try_notifications:
  "notifications (fst (snd (loop_try html_parser m env))) =
     (if detects html_parser env \<and> now env - last_sent m > of_int (cooldown m) \<and>
         session env = Returns () then 1 else 0)"
proof -
  obtain a1 r where c: "check_discount html_parser m (fetched env) = (a1, r)"
    by (cases "check_discount html_parser m (fetched env)")
  then have d: "detects html_parser env \<longleftrightarrow> r = Returns True"
    by (simp add: detects_iff [of html_parser env m])
  from c have n: "notifications a1 = 0"
    using check_discount_no_mail(1) [of html_parser m "fetched env"]
    by (simp add: notifications_none)
  obtain a2 r2 where s: "send_email m (session env) = (a2, r2)"
    by (cases "send_email m (session env)")
  then have t: "r2 = Returns True \<longleftrightarrow> session env = Returns ()"
    and u: "notifications a2 = (if session env = Returns () then 1 else 0)"
    using send_email_True_iff [of m "session env"] send_email_notifications [of m "session env"]
    by simp_all
  have z: "notifications [Log INFO InCooldown] = 0" "notifications [Log INFO NoDiscount] = 0"
    by (simp_all add: notifications_def)
  show ?thesis
    using c d n s t u z
    by (auto simp add: loop_try_def Let_def sleep_interval_notifications notifications_append
        split: outcome.splits bool.splits)
qed

lemma iteration_notifications:
  "notifications (pass_actions (iteration html_parser m env)) =
     (if detects html_parser env \<and> now env - last_sent m > of_int (cooldown m) \<and>
         session env = Returns () then 1 else 0)"
proof -
  from iteration_actions_try [of html_parser m env] obtain extra
    where e: "pass_actions (iteration html_parser m env) = fst (snd (loop_try html_parser m env)) @ extra"
      and "set extra \<subseteq> {Log INFO UserInterrupt, Sleep 300} \<union> {a. \<exists>s. a = Log ERROR (LoopError s)}"
    by blast
  then have "Log INFO MailSent \<notin> set extra" by auto
  then have "notifications extra = 0" by (rule notifications_none)
  with e show ?thesis
    by (simp add: notifications_append loop_try_notifications)
qed

lemma iteration_flow:
  "pass_flow (iteration html_parser m env) \<noteq> Continue \<Longrightarrow>
     snd (check_discount html_parser m (fetched env)) = Raises KeyboardInterrupt \<or>
     session env = Raises KeyboardInterrupt \<or>
     (\<exists>e. sleep env = Raises e \<and> (e = KeyboardInterrupt \<or> recovery_interrupted env))"
proof -
  assume a: "pass_flow (iteration html_parser m env) \<noteq> Continue"
  obtain a1 r where c: "check_discount html_parser m (fetched env) = (a1, r)"
    by (cases "check_discount html_parser m (fetched env)")
  obtain a2 r2 where s: "send_email m (session env) = (a2, r2)"
    by (cases "send_email m (session env)")
  have r2: "r2 = Raises KeyboardInterrupt \<longrightarrow> session env = Raises KeyboardInterrupt"
    "\<forall>e. r2 = Raises e \<longrightarrow> e = KeyboardInterrupt"
    using s send_email_True_iff [of m "session env"] send_email_False_iff [of m "session env"]
    by (cases "session env"; cases "case session env of Raises e \<Rightarrow> e";
        auto simp add: send_email_raises)+
  have r: "\<forall>e. r = Raises e \<longrightarrow> e = KeyboardInterrupt"
    using c check_discount_result_cases [of html_parser m "fetched env"] by auto
  show ?thesis
    using a c s r r2
    by (cases "sleep env")
       (auto simp add: iteration_def loop_try_def Let_def sleep_interval_def pass_flow_def
         split: outcome.splits bool.splits exn.splits if_splits)
qed

lemma run_loop_full_snoc:
  assumes "length (run_loop html_parser m (envs @ [env])) = Suc (length envs)"
  shows "run_loop html_parser m (envs @ [env]) =
           run_loop html_parser m envs @
             [iteration html_parser (final_state m (run_loop html_parser m envs)) env]"
  using assms
proof (induction envs arbitrary: m)
  case Nil
  then show ?case by (simp add: run_loop_Cons final_state_Nil del: run_loop.simps(2))
next
  case (Cons x xs)
  show ?case
  proof (cases "pass_flow (iteration html_parser m x) = Continue")
    case True
    with Cons.prems
    have "length (run_loop html_parser (fst (iteration html_parser m x)) (xs @ [env])) = Suc (length xs)"
      by (simp add: run_loop_Cons del: run_loop.simps(2))
    from Cons.IH [OF this] True show ?thesis
      by (simp add: run_loop_Cons final_state_Cons del: run_loop.simps(2))
  next
    case False
    with Cons.prems show ?thesis
      by (simp add: run_loop_Cons del: run_loop.simps(2))
  qed
qed

lemma quiet_passes_notifications:
  "\<forall>env \<in> set envs. \<not> detects html_parser env \<Longrightarrow>
     notifications (concat (map pass_actions (run_loop html_parser m envs))) = 0"
proof (induction envs arbitrary: m)
  case Nil
  then show ?case by (simp add: notifications_def)
next
  case (Cons x xs)
  then have "notifications (pass_actions (iteration html_parser m x)) = 0"
    by (simp add: iteration_notifications)
  moreover from Cons
  have "notifications (concat (map pass_actions
          (run_loop html_parser (fst (iteration html_parser m x)) xs))) = 0"
    by simp
  ultimately show ?case
    by (simp add: run_loop_Cons notifications_append del: run_loop.simps(2))
       (simp add: notifications_def)
qed

lemma run_actions: "fst (run html_parser m envs) =
    Log INFO ServiceStarted # concat (map pass_actions (run_loop html_parser m envs))"
  by (simp add: run_def Let_def)

text \<open>How a pass ends when an exception reaches the \<open>except\<close> clauses of the loop.\<close>

lemma loop_fault_recovered:
  assumes "loop_try html_parser m env = (m', acts, Raises e)" and "e \<noteq> KeyboardInterrupt"
    and "\<not> recovery_interrupted env"
  shows "iteration html_parser m env =
           (m', acts @ [Log ERROR (LoopError (exn_str e)), Sleep 300], Continue)"
  using assms by (cases e) (simp_all add: iteration_def)

lemma interrupt_in_try_breaks:
  assumes "loop_try html_parser m env = (m', acts, Raises KeyboardInterrupt)"
  shows "iteration html_parser m env = (m', acts @ [Log INFO UserInterrupt], Break)"
  using assms by (simp add: iteration_def)

lemma interrupt_in_recovery_escapes:
  assumes "loop_try html_parser m env = (m', acts, Raises e)" and "e \<noteq> KeyboardInterrupt"
    and "recovery_interrupted env"
  shows "iteration html_parser m env =
           (m', acts @ [Log ERROR (LoopError (exn_str e))], Propagate KeyboardInterrupt)"
  using assms by (cases e) (simp_all add: iteration_def)

text \<open>Rules that evaluate one pass on the example inputs.\<close>

lemmas pass_eval = iteration_def loop_try_def sleep_interval_def Let_def example_check_simps
  send_email_raises match_env_def quiet_env_def GregoryMonitor_def pass_actions_def pass_flow_def
  fetch_eval

text \<open>Every pass begins with the HTTP request.\<close>

lemma check_discount_head:
  "\<exists>acts. fst (check_discount html_parser m resp) = http_request m # acts"
  by (simp add: check_discount_def split: prod.splits outcome.splits)

lemma loop_try_head:
  "\<exists>acts. fst (snd (loop_try html_parser m env)) = http_request m # acts"
proof -
  obtain a1 r where c: "check_discount html_parser m (fetched env) = (a1, r)"
    by (cases "check_discount html_parser m (fetched env)")
  with check_discount_head [of html_parser m "fetched env"]
  obtain acts where a1: "a1 = http_request m # acts" by auto
  obtain a2 r2 where s: "send_email m (session env) = (a2, r2)"
    by (cases "send_email m (session env)")
  show ?thesis
    using c a1 s
    by (cases "sleep env")
       (auto simp add: loop_try_def Let_def sleep_interval_def split: outcome.splits bool.splits)
qed

lemma iteration_head:
  "\<exists>acts. pass_actions (iteration html_parser m env) = http_request m # acts"
proof -
  from iteration_actions_try [of html_parser m env] obtain extra
    where "pass_actions (iteration html_parser m env) =
             fst (snd (loop_try html_parser m env)) @ extra"
    by blast
  with loop_try_head [of html_parser m env] show ?thesis by auto
qed

lemma run_first_pass:
  "\<exists>acts. fst (run html_parser m (env # envs)) =
      Log INFO ServiceStarted # http_request m # acts"
proof -
  from iteration_head [of html_parser m env] obtain acts
    where "pass_actions (iteration html_parser m env) = http_request m # acts"
    by blast
  then show ?thesis
    by (simp add: run_def run_loop_Cons del: run_loop.simps(2))
qed

text \<open>The example environment gives the example configuration.\<close>

lemmas int_eval = py_int_def digits_value_def digit_val_def strip_def is_space_def

lemma from_env_example: "from_env example_environ = Returns example_config"
  by (simp add: from_env_def getenv_int_def getenv_str_def example_environ_def
      example_config_def int_eval)

text \<open>
  \<open>from_env\<close> returns exactly when each of the two integer settings is absent or a
  text that \<open>int\<close> accepts.
\<close>

lemma from_env_returns_iff:
  "(\<exists>c. from_env environ = Returns c) \<longleftrightarrow>
     (\<forall>v. environ ''CHECK_INTERVAL'' = Some v \<longrightarrow> py_int v \<noteq> None) \<and>
     (\<forall>v. environ ''SMTP_PORT'' = Some v \<longrightarrow> py_int v \<noteq> None)"
  by (auto simp add: from_env_def getenv_int_def split: option.splits outcome.splits)

section \<open>Startup validation\<close>

text \<open>
  C6. Startup validation. As stated the claim does not hold. In an environment in which
  all nine settings are present and not empty, with \<open>CHECK_INTERVAL\<close> set to the text
  \<open>0\<close>, validation reports the field \<open>check_interval\<close> and the loop is not started,
  because \<open>validate\<close> tests the integer fields for truth like the string fields. And in
  an environment in which \<open>SMTP_SERVER\<close> and \<open>SMTP_PORT\<close> are both set to the empty
  string, \<open>int\<close> rejects the empty text in \<open>from_env\<close>: no field is named, and
  \<open>main\<close> is left by the exception.
\<close>

theorem startup_validation_counterexample:
  "from_env (example_environ(''CHECK_INTERVAL'' \<mapsto> ''0'')) =
     Returns (example_config\<lparr>check_interval := 0\<rparr>) \<and>
   main_env example_parser (example_environ(''CHECK_INTERVAL'' \<mapsto> ''0'')) [quiet_env] =
     ([Print (missing_msg ''check_interval'')], Returned) \<and>
   main_env example_parser (example_environ(''SMTP_SERVER'' \<mapsto> [], ''SMTP_PORT'' \<mapsto> []))
       [quiet_env] =
     ([], Uncaught (OtherException
            (''invalid literal for int() with base 10: '' @ [CHR 0x27, CHR 0x27]))) \<and>
   exit_code (snd (main_env example_parser
       (example_environ(''SMTP_SERVER'' \<mapsto> [], ''SMTP_PORT'' \<mapsto> [])) [quiet_env])) \<noteq> Some 0"
proof -
  have 1: "from_env (example_environ(''CHECK_INTERVAL'' \<mapsto> ''0'')) =
     Returns (example_config\<lparr>check_interval := 0\<rparr>)"
    by (simp add: from_env_def getenv_int_def getenv_str_def example_environ_def
        example_config_def int_eval)
  have 2: "validate (example_config\<lparr>check_interval := 0\<rparr>) = [missing_msg ''check_interval'']"
    by (simp add: validate_def dict_items_def example_config_def)
  have 3: "from_env (example_environ(''SMTP_SERVER'' \<mapsto> [], ''SMTP_PORT'' \<mapsto> [])) =
     Raises (OtherException
            (''invalid literal for int() with base 10: '' @ [CHR 0x27, CHR 0x27]))"
    by (simp add: from_env_def getenv_int_def getenv_str_def example_environ_def int_eval)
  show ?thesis
    by (simp add: main_env_def main_def 1 2 3)
qed

text \<open>
  C6 as amended. Let \<open>from_env\<close> return a configuration (the two integer settings are
  absent or integer literals). \<open>validate\<close> returns one message for each field whose
  value is empty in the sense of the code (false in Python: the empty string, the
  integer 0), in field order, and each message contains the name of its field; no field
  is empty exactly when every string field is a non-empty string and both integer fields
  are not 0. When some field is empty, the program prints exactly these messages and
  returns: no log record, no HTTP request, no SMTP session, no pass of the loop, exit
  status 0. When no field is empty, \<open>validate\<close> returns no error and the program is the
  run of the monitor loop: it logs the start-up record and, when the world lets a first
  pass happen, that pass is executed and begins with the HTTP request.
\<close>

theorem startup_validation:
  assumes "from_env environ = Returns c"
  shows "validate c = map missing_msg (empty_fields c) \<and>
   (\<forall>field \<in> set (empty_fields c). sublist field (missing_msg field)) \<and>
   (empty_fields c = [] \<longleftrightarrow>
      website_url c \<noteq> [] \<and> check_interval c \<noteq> 0 \<and> smtp_server c \<noteq> [] \<and>
      smtp_port c \<noteq> 0 \<and> email_user c \<noteq> [] \<and> email_password c \<noteq> [] \<and>
      sender c \<noteq> [] \<and> receiver c \<noteq> [] \<and> user_agent c \<noteq> []) \<and>
   (empty_fields c \<noteq> [] \<longrightarrow>
      main_env html_parser environ envs =
        (map (\<lambda>field. Print (missing_msg field)) (empty_fields c), Returned) \<and>
      exit_code (snd (main_env html_parser environ envs)) = Some 0) \<and>
   (empty_fields c = [] \<longrightarrow>
      validate c = [] \<and>
      main_env html_parser environ envs = run html_parser (GregoryMonitor c) envs \<and>
      (\<exists>acts. fst (main_env html_parser environ []) = Log INFO ServiceStarted # acts) \<and>
      (\<forall>env rest. envs = env # rest \<longrightarrow>
         (\<exists>acts. fst (main_env html_parser environ envs) =
            Log INFO ServiceStarted # http_request (GregoryMonitor c) # acts)))"
proof -
  have "validate c = map missing_msg (empty_fields c)"
    by (rule validate_empty_fields)
  moreover have "\<forall>field \<in> set (empty_fields c). sublist field (missing_msg field)"
    by (simp add: missing_msg_names_field)
  moreover note empty_fields_Nil_iff [of c]
  moreover have "empty_fields c \<noteq> [] \<longrightarrow>
      main_env html_parser environ envs =
        (map (\<lambda>field. Print (missing_msg field)) (empty_fields c), Returned) \<and>
      exit_code (snd (main_env html_parser environ envs)) = Some 0"
    using assms by (simp add: main_env_def validate_empty_fields main_def Let_def comp_def)
  moreover have "empty_fields c = [] \<longrightarrow>
      validate c = [] \<and>
      main_env html_parser environ envs = run html_parser (GregoryMonitor c) envs \<and>
      (\<exists>acts. fst (main_env html_parser environ []) = Log INFO ServiceStarted # acts) \<and>
      (\<forall>env rest. envs = env # rest \<longrightarrow>
         (\<exists>acts. fst (main_env html_parser environ envs) =
            Log INFO ServiceStarted # http_request (GregoryMonitor c) # acts))"
  proof
    assume e: "empty_fields c = []"
    then have v: "validate c = []" by (simp add: validate_empty_fields)
    with assms have m: "\<And>es. main_env html_parser environ es = run html_parser (GregoryMonitor c) es"
      by (simp add: main_env_def main_def)
    have "\<exists>acts. fst (run html_parser (GregoryMonitor c) []) = Log INFO ServiceStarted # acts"
      by (simp add: run_def)
    moreover have "\<forall>env rest. envs = env # rest \<longrightarrow>
         (\<exists>acts. fst (run html_parser (GregoryMonitor c) envs) =
            Log INFO ServiceStarted # http_request (GregoryMonitor c) # acts)"
      using run_first_pass by blast
    ultimately show "validate c = [] \<and>
      main_env html_parser environ envs = run html_parser (GregoryMonitor c) envs \<and>
      (\<exists>acts. fst (main_env html_parser environ []) = Log INFO ServiceStarted # acts) \<and>
      (\<forall>env rest. envs = env # rest \<longrightarrow>
         (\<exists>acts. fst (main_env html_parser environ envs) =
            Log INFO ServiceStarted # http_request (GregoryMonitor c) # acts))"
      using v m by simp
  qed
  ultimately show ?thesis by blast
qed

text \<open>
  The scenario of the specification (the SMTP server is missing), and the complete
  environment, in which the loop starts and executes its first pass.
\<close>

theorem startup_validation_witness:
  "from_env (example_environ(''SMTP_SERVER'' := None)) =
     Returns (example_config\<lparr>smtp_server := []\<rparr>) \<and>
   empty_fields (example_config\<lparr>smtp_server := []\<rparr>) = [''smtp_server''] \<and>
   main_env example_parser (example_environ(''SMTP_SERVER'' := None)) [quiet_env] =
     ([Print (missing_msg ''smtp_server'')], Returned) \<and>
   from_env example_environ = Returns example_config \<and>
   empty_fields example_config = [] \<and>
   main_env example_parser example_environ [quiet_env] =
     ([Log INFO ServiceStarted, http_request (GregoryMonitor example_config),
       Log INFO NoDiscount, Sleep 1800], Running)"
proof -
  have f1: "from_env (example_environ(''SMTP_SERVER'' := None)) =
     Returns (example_config\<lparr>smtp_server := []\<rparr>)"
    by (simp add: from_env_def getenv_int_def getenv_str_def example_environ_def
        example_config_def int_eval)
  have e1: "empty_fields (example_config\<lparr>smtp_server := []\<rparr>) = [''smtp_server'']"
    by (simp add: empty_fields_def dict_items_def example_config_def)
  have e2: "empty_fields example_config = []"
    by (simp add: empty_fields_def dict_items_def example_config_def)
  have r: "run example_parser (GregoryMonitor example_config) [quiet_env] =
     ([Log INFO ServiceStarted, http_request (GregoryMonitor example_config),
       Log INFO NoDiscount, Sleep 1800], Running)"
    by (simp add: run_def loop_ending_def pass_eval example_config_def)
  from f1 e1 e2 r from_env_example
    startup_validation [OF f1, of example_parser "[quiet_env]"]
    startup_validation [OF from_env_example, of example_parser "[quiet_env]"]
  show ?thesis by simp
qed

text \<open>
  C9. The integer fields are tested like the string fields: a configuration whose
  \<open>check_interval\<close> or \<open>smtp_port\<close> is 0 fails validation, whatever its other fields
  hold, with the message of that field among the errors, and \<open>main\<close> prints the
  errors and returns without starting the loop.
\<close>

theorem validate_rejects_zero:
  "check_interval c = 0 \<or> smtp_port c = 0 \<Longrightarrow>
     validate c \<noteq> [] \<and>
     (check_interval c = 0 \<longrightarrow> missing_msg ''check_interval'' \<in> set (validate c)) \<and>
     (smtp_port c = 0 \<longrightarrow> missing_msg ''smtp_port'' \<in> set (validate c)) \<and>
     main html_parser c envs = (map Print (validate c), Returned)"
proof -
  assume z: "check_interval c = 0 \<or> smtp_port c = 0"
  have v: "set (validate c) = missing_msg ` set (empty_fields c)"
    by (simp add: validate_empty_fields)
  from z have "\<exists>field. field \<in> set (empty_fields c)"
    using empty_fields_check_interval empty_fields_smtp_port by metis
  then have ne: "validate c \<noteq> []" by (auto simp add: validate_empty_fields)
  have "check_interval c = 0 \<longrightarrow> ''check_interval'' \<in> set (empty_fields c)"
    by (simp add: empty_fields_check_interval)
  moreover have "smtp_port c = 0 \<longrightarrow> ''smtp_port'' \<in> set (empty_fields c)"
    by (simp add: empty_fields_smtp_port)
  ultimately show ?thesis using ne v by (simp add: main_def Let_def)
qed

text \<open>Every string field is set and the poll interval is 0: start-up is refused.\<close>

theorem validate_rejects_zero_witness:
  "check_interval (example_config\<lparr>check_interval := 0\<rparr>) = 0 \<and>
   validate (example_config\<lparr>check_interval := 0\<rparr>) = [missing_msg ''check_interval''] \<and>
   main (\<lambda>html. Returns []) (example_config\<lparr>check_interval := 0\<rparr>) [] =
     ([Print (missing_msg ''check_interval'')], Returned)"
proof -
  have v: "validate (example_config\<lparr>check_interval := 0\<rparr>) = [missing_msg ''check_interval'']"
    by (simp add: validate_def dict_items_def example_config_def)
  have z: "check_interval (example_config\<lparr>check_interval := 0\<rparr>) = 0 \<or>
           smtp_port (example_config\<lparr>check_interval := 0\<rparr>) = 0" by simp
  from validate_rejects_zero [OF z, of "\<lambda>html. Returns []" "[]"] v
  show ?thesis by simp
qed

section \<open>Detection\<close>

text \<open>
  C2. Detection correctness. As stated, for every HTML input that contains a keyword in
  its visible text, the claim does not hold: \<open>get_text\<close> joins the text nodes with a
  space, so a keyword that markup splits over several text nodes is not found. In
  \<open><p>S<b>ALE</b></p>\<close> the visible strings, read one after the other, are the word
  SALE; the searched text is \<open>s ale\<close>, and \<open>check_discount\<close> returns False.
\<close>

theorem detection_split_keyword_counterexample:
  "example_parser ''<p>S<b>ALE</b></p>'' =
     Returns [Tag ''p'' [NavigableString ''S'', Tag ''b'' [NavigableString ''ALE'']]] \<and>
   concat (visible_strings [Tag ''p'' [NavigableString ''S'', Tag ''b'' [NavigableString ''ALE'']]])
     = ''SALE'' \<and>
   ''sale'' \<in> set monitor_keywords \<and>
   sublist ''sale'' (lower ''SALE'') \<and>
   page_text [Tag ''p'' [NavigableString ''S'', Tag ''b'' [NavigableString ''ALE'']]] = ''s ale'' \<and>
   check_discount example_parser (GregoryMonitor example_config) (Returns ''<p>S<b>ALE</b></p>'') =
     ([http_request (GregoryMonitor example_config)], Returns False)"
proof -
  have t: "page_text [Tag ''p'' [NavigableString ''S'', Tag ''b'' [NavigableString ''ALE'']]] = ''s ale''"
    by (simp add: page_text_def get_text_def removed_tags_def char_eval)
  have f: "found_keywords monitor_keywords ''s ale'' = []"
    by (simp add: found_keywords_def monitor_keywords_def sublist_Cons_right)
  have c: "check_discount example_parser (GregoryMonitor example_config)
      (Returns ''<p>S<b>ALE</b></p>'') = ([http_request (GregoryMonitor example_config)], Returns False)"
    by (simp add: t f
        check_discount_page [where html_parser = example_parser
          and html = "''<p>S<b>ALE</b></p>''", OF example_parser_simps(8)])
  have v: "concat (visible_strings
      [Tag ''p'' [NavigableString ''S'', Tag ''b'' [NavigableString ''ALE'']]]) = ''SALE''"
    by (simp add: removed_tags_def)
  have k: "''sale'' \<in> set monitor_keywords" by (simp add: monitor_keywords_def)
  have l: "sublist ''sale'' (lower ''SALE'')" by (simp add: char_eval)
  from t c v k l example_parser_simps(8) show ?thesis by simp
qed

text \<open>
  C2 as amended. Let the parser return the tree \<open>soup\<close> for the response text. A
  keyword of the configured set that occurs, in any mix of upper and lower case, inside
  one string of the document outside every \<open>script\<close>, \<open>style\<close> and \<open>noscript\<close>
  subtree is among the found keywords, and \<open>check_discount\<close> returns True. When no
  keyword occurs in such a string (keywords occur inside those subtrees only, or
  nowhere), no keyword is found and \<open>check_discount\<close> returns False. In general a
  keyword is found exactly when it occurs in the text made of the visible strings, each
  stripped, the empty ones dropped, joined with single spaces and put in lower case; an
  occurrence that markup splits over several strings has spaces between its parts in
  that text.
\<close>

theorem detection_correct:
  assumes "html_parser html = Returns soup"
  shows "(\<forall>kw \<in> set monitor_keywords.
            (\<exists>s \<in> set (visible_strings soup). sublist kw (lower s)) \<longrightarrow>
              kw \<in> set (found_keywords monitor_keywords (page_text soup)) \<and>
              snd (check_discount html_parser m (Returns html)) = Returns True) \<and>
         ((\<forall>kw \<in> set monitor_keywords. \<forall>s \<in> set (visible_strings soup). \<not> sublist kw (lower s)) \<longrightarrow>
              found_keywords monitor_keywords (page_text soup) = [] \<and>
              snd (check_discount html_parser m (Returns html)) = Returns False) \<and>
         (\<forall>kw \<in> set monitor_keywords.
            kw \<in> set (found_keywords monitor_keywords (page_text soup)) \<longleftrightarrow>
              sublist kw (join '' ''
                (map lower (filter (\<lambda>s. s \<noteq> []) (map strip (visible_strings soup)))))) \<and>
         snd (check_discount html_parser m (Returns html)) =
           Returns (\<exists>kw \<in> set monitor_keywords.
              sublist kw (join '' ''
                (map lower (filter (\<lambda>s. s \<noteq> []) (map strip (visible_strings soup))))))"
proof (intro conjI ballI impI)
  fix kw
  assume kw: "kw \<in> set monitor_keywords"
    and vis: "\<exists>s \<in> set (visible_strings soup). sublist kw (lower s)"
  from vis obtain s where "s \<in> set (visible_strings soup)" "sublist kw (lower s)" by blast
  with keyword_shape [OF kw] have "sublist kw (page_text soup)"
    by (simp add: visible_keyword_in_text)
  with kw show f: "kw \<in> set (found_keywords monitor_keywords (page_text soup))"
    by (simp add: found_keywords_iff)
  then have "found_keywords monitor_keywords (page_text soup) \<noteq> []" by auto
  then show "snd (check_discount html_parser m (Returns html)) = Returns True"
    by (simp add: check_discount_page [where html_parser = html_parser and html = html, OF assms])
next
  assume none: "\<forall>kw \<in> set monitor_keywords. \<forall>s \<in> set (visible_strings soup). \<not> sublist kw (lower s)"
  then show e: "found_keywords monitor_keywords (page_text soup) = []"
    using found_nonempty_visible by blast
  then show "snd (check_discount html_parser m (Returns html)) = Returns False"
    by (simp add: check_discount_page [where html_parser = html_parser and html = html, OF assms])
next
  fix kw
  assume "kw \<in> set monitor_keywords"
  then show "kw \<in> set (found_keywords monitor_keywords (page_text soup)) \<longleftrightarrow>
      sublist kw (join '' ''
        (map lower (filter (\<lambda>s. s \<noteq> []) (map strip (visible_strings soup)))))"
    by (simp add: found_keywords_iff page_text_parts)
next
  have eq: "found_keywords monitor_keywords (page_text soup) = [] \<longleftrightarrow>
      \<not> (\<exists>kw \<in> set monitor_keywords. sublist kw (page_text soup))"
    by (simp add: found_keywords_def filter_empty_conv)
  have "snd (check_discount html_parser m (Returns html)) =
      Returns (\<exists>kw \<in> set monitor_keywords. sublist kw (page_text soup))"
  proof (cases "found_keywords monitor_keywords (page_text soup) = []")
    case True
    with eq have "\<not> (\<exists>kw \<in> set monitor_keywords. sublist kw (page_text soup))" by blast
    with True show ?thesis
      by (simp add: check_discount_page [where html_parser = html_parser and html = html, OF assms])
  next
    case False
    with eq have "\<exists>kw \<in> set monitor_keywords. sublist kw (page_text soup)" by blast
    with False show ?thesis
      by (simp add: check_discount_page [where html_parser = html_parser and html = html, OF assms])
  qed
  then show "snd (check_discount html_parser m (Returns html)) =
      Returns (\<exists>kw \<in> set monitor_keywords.
         sublist kw (join '' ''
           (map lower (filter (\<lambda>s. s \<noteq> []) (map strip (visible_strings soup))))))"
    by (simp only: page_text_parts)
qed

text \<open>
  The scenario of the specification, where the keyword is inside a \<open>script\<close> tag
  only, and a page with a keyword in capitals in its visible text.
\<close>

theorem detection_correct_witness:
  "snd (check_discount example_parser (GregoryMonitor example_config)
          (Returns ''<script>sale</script><p>Welcome</p>'')) = Returns False \<and>
   ''sale'' \<in> set (found_keywords monitor_keywords
          (page_text [Tag ''p'' [NavigableString ''Big SALE today'']])) \<and>
   snd (check_discount example_parser (GregoryMonitor example_config)
          (Returns ''<p>Big SALE today</p>'')) = Returns True"
proof -
  have none: "\<forall>kw \<in> set monitor_keywords. \<forall>s \<in> set (visible_strings
      [Tag ''script'' [NavigableString ''sale''], Tag ''p'' [NavigableString ''Welcome'']]).
      \<not> sublist kw (lower s)"
    by (simp add: monitor_keywords_def removed_tags_def char_eval sublist_Cons_right)
  have k: "''sale'' \<in> set monitor_keywords" by (simp add: monitor_keywords_def)
  have some: "\<exists>s \<in> set (visible_strings [Tag ''p'' [NavigableString ''Big SALE today'']]).
      sublist ''sale'' (lower s)"
    by (simp add: removed_tags_def char_eval sublist_Cons_right)
  from none k some
    detection_correct [where html_parser = example_parser
          and html = "''<script>sale</script><p>Welcome</p>''"
          and m = "GregoryMonitor example_config",
          OF example_parser_simps(1)]
    detection_correct [where html_parser = example_parser
          and html = "''<p>Big SALE today</p>''"
          and m = "GregoryMonitor example_config",
          OF example_parser_simps(3)]
  show ?thesis by blast
qed

text \<open>
  C10. The keyword set contains the bare word \<open>off\<close> and the test is substring
  containment: a page with a visible string in which \<open>off\<close> occurs anywhere, also
  inside a longer word, is reported as a match.
\<close>

theorem off_matches_inside_words:
  assumes "html_parser html = Returns soup"
    and "s \<in> set (visible_strings soup)" and "sublist ''off'' (lower s)"
  shows "''off'' \<in> set monitor_keywords \<and>
         ''off'' \<in> set (found_keywords monitor_keywords (page_text soup)) \<and>
         snd (check_discount html_parser m (Returns html)) = Returns True"
proof -
  have k: "''off'' \<in> set monitor_keywords" by (simp add: monitor_keywords_def)
  from keyword_shape [OF k] assms(2,3) have "sublist ''off'' (page_text soup)"
    by (simp add: visible_keyword_in_text)
  with k have f: "''off'' \<in> set (found_keywords monitor_keywords (page_text soup))"
    by (simp add: found_keywords_iff)
  then have "found_keywords monitor_keywords (page_text soup) \<noteq> []" by auto
  then have "snd (check_discount html_parser m (Returns html)) = Returns True"
    by (simp add: check_discount_page [where html_parser = html_parser and html = html, OF assms(1)])
  with k f show ?thesis by simp
qed

text \<open>The words coffee, office and offer.\<close>

theorem off_matches_inside_words_witness:
  "snd (check_discount example_parser (GregoryMonitor example_config)
          (Returns ''<p>Fresh coffee</p>'')) = Returns True \<and>
   snd (check_discount example_parser (GregoryMonitor example_config)
          (Returns ''<p>Our office</p>'')) = Returns True \<and>
   snd (check_discount example_parser (GregoryMonitor example_config)
          (Returns ''<p>A new offer</p>'')) = Returns True"
proof -
  have 1: "''Fresh coffee'' \<in> set (visible_strings [Tag ''p'' [NavigableString ''Fresh coffee'']])"
    by (simp add: removed_tags_def)
  have 2: "sublist ''off'' (lower ''Fresh coffee'')"
    by (simp add: char_eval sublist_Cons_right)
  have 3: "''Our office'' \<in> set (visible_strings [Tag ''p'' [NavigableString ''Our office'']])"
    by (simp add: removed_tags_def)
  have 4: "sublist ''off'' (lower ''Our office'')"
    by (simp add: char_eval sublist_Cons_right)
  have 5: "''A new offer'' \<in> set (visible_strings [Tag ''p'' [NavigableString ''A new offer'']])"
    by (simp add: removed_tags_def)
  have 6: "sublist ''off'' (lower ''A new offer'')"
    by (simp add: char_eval sublist_Cons_right)
  from
    off_matches_inside_words [where html_parser = example_parser
          and html = "''<p>Fresh coffee</p>''"
          and m = "GregoryMonitor example_config",
          OF example_parser_simps(5) 1 2]
    off_matches_inside_words [where html_parser = example_parser
          and html = "''<p>Our office</p>''"
          and m = "GregoryMonitor example_config",
          OF example_parser_simps(6) 3 4]
    off_matches_inside_words [where html_parser = example_parser
          and html = "''<p>A new offer</p>''"
          and m = "GregoryMonitor example_config",
          OF example_parser_simps(7) 5 6]
  show ?thesis by simp
qed

text \<open>
  C7. Result of the detection. As stated (the operation returns the set of matched
  keywords) the claim does not hold: \<open>check_discount\<close> returns a boolean. Two pages
  with different sets of matched keywords give the same result \<open>True\<close>.
\<close>

theorem check_discount_returns_bool_counterexample:
  "snd (check_discount example_parser (GregoryMonitor example_config)
          (Returns ''<p>Big SALE today</p>'')) = Returns True \<and>
   snd (check_discount example_parser (GregoryMonitor example_config)
          (Returns ''<h1>Discount</h1>'')) = Returns True \<and>
   found_keywords monitor_keywords (page_text [Tag ''p'' [NavigableString ''Big SALE today'']])
     = [''sale''] \<and>
   found_keywords monitor_keywords (page_text [Tag ''h1'' [NavigableString ''Discount'']])
     = [''discount'']"
proof -
  have 1: "found_keywords monitor_keywords (page_text [Tag ''p'' [NavigableString ''Big SALE today'']])
     = [''sale'']"
    by (simp add: found_keywords_def monitor_keywords_def page_text_def get_text_def
        removed_tags_def char_eval sublist_Cons_right)
  have 2: "found_keywords monitor_keywords (page_text [Tag ''h1'' [NavigableString ''Discount'']])
     = [''discount'']"
    by (simp add: found_keywords_def monitor_keywords_def page_text_def get_text_def
        removed_tags_def char_eval sublist_Cons_right)
  show ?thesis
    by (simp add: 1 2
        check_discount_page [where html_parser = example_parser
          and html = "''<p>Big SALE today</p>''", OF example_parser_simps(3)]
        check_discount_page [where html_parser = example_parser
          and html = "''<h1>Discount</h1>''", OF example_parser_simps(4)])
qed

text \<open>
  C7 as amended: \<open>check_discount\<close> returns only a boolean, which is true exactly when
  at least one keyword of the set occurs in the extracted text; the found keywords
  themselves go to the log, in one INFO record that lists exactly the keywords that occur
  in the text, and are not returned.
\<close>

theorem check_discount_result:
  assumes "html_parser html = Returns soup"
  shows "snd (check_discount html_parser m (Returns html)) =
           Returns (\<exists>kw \<in> set monitor_keywords. sublist kw (page_text soup)) \<and>
         fst (check_discount html_parser m (Returns html)) =
           (if \<exists>kw \<in> set monitor_keywords. sublist kw (page_text soup)
            then [http_request m,
                  Log INFO (KeywordsFound
                    {kw \<in> set monitor_keywords. sublist kw (page_text soup)})]
            else [http_request m])"
proof -
  have "found_keywords monitor_keywords (page_text soup) \<noteq> [] \<longleftrightarrow>
      (\<exists>kw \<in> set monitor_keywords. sublist kw (page_text soup))"
    by (simp add: found_keywords_def filter_empty_conv)
  moreover have "set (found_keywords monitor_keywords (page_text soup)) =
      {kw \<in> set monitor_keywords. sublist kw (page_text soup)}"
    by (simp add: found_keywords_def)
  ultimately show ?thesis
    using assms by (simp add: check_discount_def check_try_def Let_def)
qed

text \<open>A page with two keywords: the record lists both, the result is one boolean.\<close>

theorem check_discount_result_witness:
  "check_discount example_parser (GregoryMonitor example_config)
     (Returns ''<p>discount sale</p>'') =
     ([http_request (GregoryMonitor example_config),
       Log INFO (KeywordsFound {''sale'', ''discount''})],
      Returns True)"
proof -
  have f: "found_keywords monitor_keywords
      (page_text [Tag ''p'' [NavigableString ''discount sale'']]) = [''sale'', ''discount'']"
    by (simp add: found_keywords_def monitor_keywords_def page_text_def get_text_def
        removed_tags_def char_eval sublist_Cons_right)
  then have s: "{kw \<in> set monitor_keywords.
      sublist kw (page_text [Tag ''p'' [NavigableString ''discount sale'']])} =
      {''sale'', ''discount''}"
    unfolding found_keywords_def set_filter [symmetric] by simp
  then have "\<exists>kw \<in> set monitor_keywords.
      sublist kw (page_text [Tag ''p'' [NavigableString ''discount sale'']])"
    by blast
  with s
    check_discount_result [where html_parser = example_parser
      and html = "''<p>discount sale</p>''"
      and m = "GregoryMonitor example_config", OF example_parser_simps(9)]
  show ?thesis by (simp add: prod_eq_iff)
qed

section \<open>The cooldown\<close>

text \<open>
  C4. First match. In the initial state \<open>last_sent\<close> is 0, not a value that stands for
  "never". A pass that detects a match in this state invokes \<open>send_email\<close> (the SMTP
  session is among its actions) exactly when the clock reads more than 86400.
\<close>

theorem first_match_notifies:
  assumes "snd (check_discount html_parser (GregoryMonitor c) (fetched env)) = Returns True"
  shows "smtp_session (GregoryMonitor c)
           \<in> set (pass_actions (iteration html_parser (GregoryMonitor c) env))
         \<longleftrightarrow> now env > 86400"
proof -
  from assms have "detects html_parser env"
    by (simp add: detects_iff [of html_parser env "GregoryMonitor c"])
  then show ?thesis
    by (simp add: iteration_attempt) (simp add: GregoryMonitor_def)
qed

text \<open>A match at clock reading 1700000000 is notified; a match at reading 3600 is not.\<close>

theorem first_match_notifies_witness:
  "snd (check_discount example_parser (GregoryMonitor example_config) (fetched match_env))
     = Returns True \<and>
   smtp_session (GregoryMonitor example_config)
     \<in> set (pass_actions (iteration example_parser (GregoryMonitor example_config) match_env)) \<and>
   smtp_session (GregoryMonitor example_config)
     \<notin> set (pass_actions (iteration example_parser (GregoryMonitor example_config)
                (match_env\<lparr>now := 3600\<rparr>)))"
proof -
  have 1: "snd (check_discount example_parser (GregoryMonitor example_config) (fetched match_env))
     = Returns True"
    by (simp add: match_env_def quiet_env_def fetch_eval example_check_simps)
  have 2: "snd (check_discount example_parser (GregoryMonitor example_config)
      (fetched (match_env\<lparr>now := 3600\<rparr>))) = Returns True"
    by (simp add: match_env_def quiet_env_def fetch_eval example_check_simps)
  from first_match_notifies [OF 1] first_match_notifies [OF 2] 1
  show ?thesis by (simp add: match_env_def quiet_env_def)
qed

text \<open>
  C3. Failure of the notification. In a pass that detects a match after the cooldown
  has elapsed and in which \<open>send_email\<close> reports failure, the state (and so
  \<open>last_sent\<close>) is unchanged. After it, whatever number of passes without a match
  follow, the next pass that detects a match, at a clock reading not before that of the
  failed pass, invokes \<open>send_email\<close> again, provided the loop has not been left in
  between. In every pass, \<open>last_sent\<close> becomes the clock reading of the pass when the
  pass logs a successful send, and keeps its value otherwise.
\<close>

theorem failed_send_keeps_last_sent:
  assumes "snd (check_discount html_parser m (fetched env)) = Returns True"
    and "now env - last_sent m > of_int (cooldown m)"
    and "snd (send_email m (session env)) = Returns False"
  shows "fst (iteration html_parser m env) = m \<and>
         (\<forall>mid env'.
            (\<forall>q \<in> set mid. \<not> detects html_parser q) \<and> detects html_parser env' \<and>
            now env \<le> now env' \<and>
            length (run_loop html_parser m (env # mid @ [env'])) = length mid + 2 \<longrightarrow>
            smtp_session m
              \<in> set (pass_actions (last (run_loop html_parser m (env # mid @ [env']))))) \<and>
         (\<forall>m0 env0.
            last_sent (fst (iteration html_parser m0 env0)) =
              (if Log INFO MailSent \<in> set (pass_actions (iteration html_parser m0 env0))
               then now env0 else last_sent m0))"
proof (intro conjI allI impI)
  from assms(3) have ns: "session env \<noteq> Returns ()"
    using send_email_True_iff [of m "session env"] by auto
  then show s: "fst (iteration html_parser m env) = m"
    by (simp add: iteration_state)
  fix mid env'
  assume h: "(\<forall>q \<in> set mid. \<not> detects html_parser q) \<and> detects html_parser env' \<and>
            now env \<le> now env' \<and>
            length (run_loop html_parser m (env # mid @ [env'])) = length mid + 2"
  then have len: "length (run_loop html_parser m ((env # mid) @ [env'])) = Suc (length (env # mid))"
    by simp
  from run_loop_snoc [OF len]
  have full: "length (run_loop html_parser m (env # mid)) = length (env # mid)"
    and lst: "last (run_loop html_parser m ((env # mid) @ [env'])) =
           iteration html_parser (final_state m (run_loop html_parser m (env # mid))) env'"
    by simp_all
  from full have cont: "pass_flow (iteration html_parser m env) = Continue \<or> mid = []"
    by (auto simp add: run_loop_Cons simp del: run_loop.simps(2) split: if_splits)
  from h have quiet: "final_state m (run_loop html_parser m mid) = m"
    by (simp add: quiet_passes_keep_state)
  have "final_state m (run_loop html_parser m (env # mid)) = m"
    using cont s quiet
    by (auto simp add: run_loop_Cons final_state_Cons final_state_Nil simp del: run_loop.simps(2))
  with lst have "last (run_loop html_parser m (env # mid @ [env'])) = iteration html_parser m env'"
    by simp
  moreover from h assms(2) have "detects html_parser env' \<and> now env' - last_sent m > of_int (cooldown m)"
    by simp
  ultimately show "smtp_session m
              \<in> set (pass_actions (last (run_loop html_parser m (env # mid @ [env']))))"
    by (simp add: iteration_attempt)
next
  fix m0 env0
  show "last_sent (fst (iteration html_parser m0 env0)) =
              (if Log INFO MailSent \<in> set (pass_actions (iteration html_parser m0 env0))
               then now env0 else last_sent m0)"
    by (simp add: iteration_state iteration_mail_sent)
qed

text \<open>
  A send that fails with an SMTP error, a pass without a match half an hour later, a
  match another half hour later: the last pass opens an SMTP session again.
\<close>

theorem failed_send_keeps_last_sent_witness:
  "snd (check_discount example_parser (GregoryMonitor example_config)
          (fetched (match_env\<lparr>session := Raises (SMTPException ''auth failed'')\<rparr>))) = Returns True \<and>
   snd (send_email (GregoryMonitor example_config)
          (session (match_env\<lparr>session := Raises (SMTPException ''auth failed'')\<rparr>))) = Returns False \<and>
   fst (iteration example_parser (GregoryMonitor example_config)
          (match_env\<lparr>session := Raises (SMTPException ''auth failed'')\<rparr>))
     = GregoryMonitor example_config \<and>
   smtp_session (GregoryMonitor example_config)
     \<in> set (pass_actions (last (run_loop example_parser (GregoryMonitor example_config)
          [match_env\<lparr>session := Raises (SMTPException ''auth failed'')\<rparr>,
           quiet_env\<lparr>now := 1700001800\<rparr>, match_env\<lparr>now := 1700003600\<rparr>])))"
proof -
  let ?m = "GregoryMonitor example_config"
  let ?e = "match_env\<lparr>session := Raises (SMTPException ''auth failed'')\<rparr>"
  have 1: "snd (check_discount example_parser ?m (fetched ?e)) = Returns True"
    by (simp add: match_env_def quiet_env_def fetch_eval example_check_simps)
  have 2: "now ?e - last_sent ?m > of_int (cooldown ?m)"
    by (simp add: match_env_def quiet_env_def GregoryMonitor_def)
  have 3: "snd (send_email ?m (session ?e)) = Returns False"
    by (simp add: send_email_raises)
  have 4: "(\<forall>q \<in> set [quiet_env\<lparr>now := 1700001800\<rparr>]. \<not> detects example_parser q) \<and>
      detects example_parser (match_env\<lparr>now := 1700003600\<rparr>) \<and>
      now ?e \<le> now (match_env\<lparr>now := 1700003600\<rparr>) \<and>
      length (run_loop example_parser ?m
        (?e # [quiet_env\<lparr>now := 1700001800\<rparr>] @ [match_env\<lparr>now := 1700003600\<rparr>]))
        = length [quiet_env\<lparr>now := 1700001800\<rparr>] + 2"
    by (simp add: detects_def pass_eval)
  from failed_send_keeps_last_sent [OF 1 2 3] 4
  have "fst (iteration example_parser ?m ?e) = ?m \<and>
      smtp_session ?m \<in> set (pass_actions (last (run_loop example_parser ?m
        (?e # [quiet_env\<lparr>now := 1700001800\<rparr>] @ [match_env\<lparr>now := 1700003600\<rparr>]))))"
    by blast
  with 1 3 show ?thesis by simp
qed

text \<open>
  C1. Cooldown. As stated, for every run, the claim does not hold: when \<open>send_email\<close>
  fails, the next matching pass tries again, so two matches half an hour apart whose
  sends both fail give no notification at all (and two SMTP sessions), not exactly one.
\<close>

theorem cooldown_counterexample:
  "snd (check_discount example_parser (GregoryMonitor example_config)
          (fetched (match_env\<lparr>session := Raises (SMTPException ''connection refused'')\<rparr>)))
     = Returns True \<and>
   snd (check_discount example_parser (GregoryMonitor example_config)
          (fetched (match_env\<lparr>now := 1700001800,
                     session := Raises (SMTPException ''connection refused'')\<rparr>)))
     = Returns True \<and>
   now (match_env\<lparr>now := 1700001800, session := Raises (SMTPException ''connection refused'')\<rparr>)
     - now (match_env\<lparr>session := Raises (SMTPException ''connection refused'')\<rparr>) < 86400 \<and>
   run example_parser (GregoryMonitor example_config)
     [match_env\<lparr>session := Raises (SMTPException ''connection refused'')\<rparr>,
      match_env\<lparr>now := 1700001800, session := Raises (SMTPException ''connection refused'')\<rparr>] =
     ([Log INFO ServiceStarted,
       http_request (GregoryMonitor example_config), Log INFO (KeywordsFound {''discount''}),
       smtp_session (GregoryMonitor example_config), Log ERROR (SmtpError ''connection refused''),
       Sleep 1800,
       http_request (GregoryMonitor example_config), Log INFO (KeywordsFound {''discount''}),
       smtp_session (GregoryMonitor example_config), Log ERROR (SmtpError ''connection refused''),
       Sleep 1800], Running) \<and>
   notifications (fst (run example_parser (GregoryMonitor example_config)
     [match_env\<lparr>session := Raises (SMTPException ''connection refused'')\<rparr>,
      match_env\<lparr>now := 1700001800, session := Raises (SMTPException ''connection refused'')\<rparr>])) = 0"
  by (simp add: run_def loop_ending_def pass_eval notifications_def
      http_request_def smtp_session_def example_config_def)

text \<open>
  C1 as amended. In every run from the initial state, whatever the sends report, two
  passes that both log a successful send have clock readings more than 86400 apart: at
  most one notification in a cooldown window, however many passes detect a match in it.
  And in a run from the initial state in which a pass detects a match at a clock reading
  above 86400, no pass detects one for a while, and a later pass detects one again,
  both SMTP sessions returning and the loop not left in between: exactly one
  notification is sent when the clock readings of the two matches differ by at most
  86400, and exactly two when they differ by more.
\<close>

theorem cooldown_invariant:
  "(\<forall>i j. i < j \<and> j < length (run_loop html_parser (GregoryMonitor c) envs) \<and>
       Log INFO MailSent \<in> set (pass_actions (run_loop html_parser (GregoryMonitor c) envs ! i)) \<and>
       Log INFO MailSent \<in> set (pass_actions (run_loop html_parser (GregoryMonitor c) envs ! j))
       \<longrightarrow> now (envs ! j) - now (envs ! i) > 86400) \<and>
   (detects html_parser e1 \<and> detects html_parser e2 \<and> (\<forall>q \<in> set mid. \<not> detects html_parser q) \<and>
    86400 < now e1 \<and> session e1 = Returns () \<and> session e2 = Returns () \<and>
    length (run_loop html_parser (GregoryMonitor c) (e1 # mid @ [e2])) = length mid + 2
      \<longrightarrow> notifications (fst (run html_parser (GregoryMonitor c) (e1 # mid @ [e2]))) =
            (if now e2 - now e1 > 86400 then 2 else 1))"
proof (intro conjI allI impI)
  fix i j
  assume h: "i < j \<and> j < length (run_loop html_parser (GregoryMonitor c) envs) \<and>
       Log INFO MailSent \<in> set (pass_actions (run_loop html_parser (GregoryMonitor c) envs ! i)) \<and>
       Log INFO MailSent \<in> set (pass_actions (run_loop html_parser (GregoryMonitor c) envs ! j))"
  have cd: "0 \<le> cooldown (GregoryMonitor c)" by (simp add: GregoryMonitor_def)
  from h sends_apart [OF cd, of i j html_parser envs]
  have "now (envs ! j) - now (envs ! i) > of_int (cooldown (GregoryMonitor c))" by simp
  then show "now (envs ! j) - now (envs ! i) > 86400" by (simp add: GregoryMonitor_def)
next
  assume h: "detects html_parser e1 \<and> detects html_parser e2 \<and>
    (\<forall>q \<in> set mid. \<not> detects html_parser q) \<and>
    86400 < now e1 \<and> session e1 = Returns () \<and> session e2 = Returns () \<and>
    length (run_loop html_parser (GregoryMonitor c) (e1 # mid @ [e2])) = length mid + 2"
  let ?m = "GregoryMonitor c"
  let ?m1 = "?m\<lparr>last_sent := now e1\<rparr>"
  let ?p1 = "iteration html_parser ?m e1"
  from h have el: "now e1 - last_sent ?m > of_int (cooldown ?m)"
    by (simp add: GregoryMonitor_def)
  from h el have st: "fst ?p1 = ?m1"
    by (simp add: iteration_state)
  from h el have n1: "notifications (pass_actions ?p1) = 1"
    by (simp add: iteration_notifications)
  from h have len: "length (run_loop html_parser ?m ((e1 # mid) @ [e2])) = Suc (length (e1 # mid))"
    by simp
  from run_loop_full_snoc [OF len]
  have split: "run_loop html_parser ?m (e1 # mid @ [e2]) =
      run_loop html_parser ?m (e1 # mid) @
        [iteration html_parser (final_state ?m (run_loop html_parser ?m (e1 # mid))) e2]"
    by simp
  from len run_loop_snoc [OF len] have full: "length (run_loop html_parser ?m (e1 # mid)) = length (e1 # mid)"
    by simp
  then have cont: "pass_flow ?p1 = Continue \<or> mid = []"
    by (auto simp add: run_loop_Cons simp del: run_loop.simps(2) split: if_splits)
  from h have quiet: "final_state ?m1 (run_loop html_parser ?m1 mid) = ?m1"
    and qn: "notifications (concat (map pass_actions (run_loop html_parser ?m1 mid))) = 0"
    by (simp_all add: quiet_passes_keep_state quiet_passes_notifications)
  have fs: "final_state ?m (run_loop html_parser ?m (e1 # mid)) = ?m1"
    using cont st quiet
    by (auto simp add: run_loop_Cons final_state_Cons final_state_Nil simp del: run_loop.simps(2))
  have pre: "notifications (concat (map pass_actions (run_loop html_parser ?m (e1 # mid)))) = 1"
    using cont st qn n1
    by (auto simp add: run_loop_Cons notifications_append simp del: run_loop.simps(2))
  from h have n2: "notifications (pass_actions (iteration html_parser ?m1 e2)) =
      (if now e2 - now e1 > 86400 then 1 else 0)"
    by (simp add: iteration_notifications) (simp add: GregoryMonitor_def)
  have "notifications (fst (run html_parser ?m (e1 # mid @ [e2]))) =
      notifications (concat (map pass_actions (run_loop html_parser ?m (e1 # mid)))) +
      notifications (pass_actions (iteration html_parser ?m1 e2))"
    unfolding run_actions split fs
    by (simp add: notifications_append) (simp add: notifications_def)
  with pre n2 show "notifications (fst (run html_parser ?m (e1 # mid @ [e2]))) =
            (if now e2 - now e1 > 86400 then 2 else 1)"
    by simp
qed

text \<open>
  Two matches one second apart, and two matches 90000 seconds apart with a pass without
  a match between them.
\<close>

theorem cooldown_invariant_witness:
  "notifications (fst (run example_parser (GregoryMonitor example_config)
      [match_env, match_env\<lparr>now := 1700000001\<rparr>])) = 1 \<and>
   notifications (fst (run example_parser (GregoryMonitor example_config)
      [match_env, quiet_env\<lparr>now := 1700050000\<rparr>, match_env\<lparr>now := 1700090000\<rparr>])) = 2 \<and>
   now ([match_env, quiet_env\<lparr>now := 1700050000\<rparr>, match_env\<lparr>now := 1700090000\<rparr>] ! 2)
     - now ([match_env, quiet_env\<lparr>now := 1700050000\<rparr>, match_env\<lparr>now := 1700090000\<rparr>] ! 0)
     > 86400"
proof -
  let ?m = "GregoryMonitor example_config"
  let ?q = "quiet_env\<lparr>now := 1700050000\<rparr>"
  let ?e2 = "match_env\<lparr>now := 1700090000\<rparr>"
  let ?e2' = "match_env\<lparr>now := 1700000001\<rparr>"
  have d: "detects example_parser match_env" "detects example_parser ?e2'"
    "detects example_parser ?e2" "\<forall>q \<in> set [?q]. \<not> detects example_parser q"
    "\<forall>q \<in> set []. \<not> detects example_parser q"
    by (simp_all add: detects_def match_env_def quiet_env_def fetch_eval example_check_simps)
  have e: "86400 < now match_env" "session match_env = Returns ()"
    "session ?e2' = Returns ()" "session ?e2 = Returns ()"
    by (simp_all add: match_env_def quiet_env_def)
  have r: "run_loop example_parser ?m (match_env # [?q] @ [?e2]) =
      [(?m\<lparr>last_sent := 1700000000\<rparr>,
        [http_request ?m, Log INFO (KeywordsFound {''discount''}),
         smtp_session ?m, Log INFO MailSent, Sleep 1800], Continue),
       (?m\<lparr>last_sent := 1700000000\<rparr>,
        [http_request ?m, Log INFO NoDiscount, Sleep 1800], Continue),
       (?m\<lparr>last_sent := 1700090000\<rparr>,
        [http_request ?m, Log INFO (KeywordsFound {''discount''}),
         smtp_session ?m, Log INFO MailSent, Sleep 1800], Continue)]"
    by (simp add: pass_eval http_request_def smtp_session_def example_config_def)
  have l1: "length (run_loop example_parser ?m (match_env # [?q] @ [?e2])) = length [?q] + 2"
    unfolding r by simp
  have l2: "length (run_loop example_parser ?m (match_env # [] @ [?e2'])) = length ([]::cycle_env list) + 2"
    by (simp add: pass_eval)
  have i: "(0::nat) < 2 \<and>
      2 < length (run_loop example_parser ?m (match_env # [?q] @ [?e2])) \<and>
      Log INFO MailSent \<in> set (pass_actions (run_loop example_parser ?m (match_env # [?q] @ [?e2]) ! 0)) \<and>
      Log INFO MailSent \<in> set (pass_actions (run_loop example_parser ?m (match_env # [?q] @ [?e2]) ! 2))"
    unfolding r by (simp add: pass_actions_def)
  from cooldown_invariant [of example_parser example_config "match_env # [?q] @ [?e2]"
      match_env ?e2 "[?q]"]
    cooldown_invariant [of example_parser example_config "[]" match_env ?e2' "[]"]
    d e l1 l2 i
  show ?thesis by (simp add: match_env_def quiet_env_def)
qed

section \<open>Faults inside a pass\<close>

text \<open>
  C5. Faults of the fetch and of the parse. As stated, with every status outside 200 to
  299 as a failure of the fetch, the claim does not hold: \<open>raise_for_status\<close> raises
  for the status codes 400 to 599 only. A response with status 300 whose text contains a
  keyword is parsed like any other, \<open>check_discount\<close> returns True, and the pass sends
  the notification.
\<close>

theorem fetch_failure_counterexample:
  "fetched (match_env\<lparr>got := Returns \<lparr>status_code = 300, reason = ''Multiple Choices'',
       url = ''https://shop.example/'', resp_text = ''<h1>Discount</h1>''\<rparr>\<rparr>) =
     Returns ''<h1>Discount</h1>'' \<and>
   iteration example_parser (GregoryMonitor example_config)
     (match_env\<lparr>got := Returns \<lparr>status_code = 300, reason = ''Multiple Choices'',
       url = ''https://shop.example/'', resp_text = ''<h1>Discount</h1>''\<rparr>\<rparr>) =
     (GregoryMonitor example_config\<lparr>last_sent := 1700000000\<rparr>,
      [http_request (GregoryMonitor example_config), Log INFO (KeywordsFound {''discount''}),
       smtp_session (GregoryMonitor example_config), Log INFO MailSent, Sleep 1800], Continue)"
  by (simp add: pass_eval example_config_def)

text \<open>
  C5 as amended. When \<open>requests.get\<close> raises an exception other than the operator's
  interrupt (network error, timeout), or the response has a status code from 400 to 599,
  for which \<open>raise_for_status\<close> raises \<open>HTTPError\<close>, or the parser raises,
  \<open>check_discount\<close> logs it at level ERROR and returns False. If the sleep of line 165
  then returns, the pass logs that no discount was found, sleeps for the configured
  interval, leaves the state unchanged, and the loop goes on with the next pass. Unless
  the operator interrupts, the loop goes on from the unchanged state even when that
  sleep raises. A response with any other status code, in 200 to 299 or not, is no
  failure: its text goes to the parser.
\<close>

theorem fetch_failure_absorbed:
  assumes "got env = Raises e \<or>
           (\<exists>r. got env = Returns r \<and> 400 \<le> status_code r \<and> status_code r < 600 \<and>
                raise_for_status r = Raises e) \<or>
           (\<exists>html. fetched env = Returns html \<and> html_parser html = Raises e)"
    and "e \<noteq> KeyboardInterrupt"
  shows "check_discount html_parser m (fetched env) =
           ([http_request m,
             Log ERROR (case e of RequestException s \<Rightarrow> RequestError s | _ \<Rightarrow> CheckError (exn_str e))],
            Returns False) \<and>
         (sleep env = Returns () \<longrightarrow>
            iteration html_parser m env =
              (m, [http_request m,
                   Log ERROR (case e of RequestException s \<Rightarrow> RequestError s
                                | _ \<Rightarrow> CheckError (exn_str e)),
                   Log INFO NoDiscount, Sleep (check_interval (config m))], Continue) \<and>
            run_loop html_parser m (env # envs) =
              iteration html_parser m env # run_loop html_parser m envs) \<and>
         (sleep env \<noteq> Raises KeyboardInterrupt \<and> \<not> recovery_interrupted env \<longrightarrow>
            fst (iteration html_parser m env) = m \<and>
            pass_flow (iteration html_parser m env) = Continue) \<and>
         (\<forall>r. (\<exists>x. raise_for_status r = Raises x) \<longleftrightarrow>
                400 \<le> status_code r \<and> status_code r < 600) \<and>
         (\<forall>r. \<not> (400 \<le> status_code r \<and> status_code r < 600) \<longrightarrow>
                fetch_page (Returns r) = Returns (resp_text r))"
proof -
  from assms(1) have "fetched env = Raises e \<or>
      (\<exists>html. fetched env = Returns html \<and> html_parser html = Raises e)"
    by (auto simp add: fetched_def fetch_page_def)
  with assms(2) have c: "check_discount html_parser m (fetched env) =
           ([http_request m,
             Log ERROR (case e of RequestException s \<Rightarrow> RequestError s | _ \<Rightarrow> CheckError (exn_str e))],
            Returns False)"
    by (auto simp add: check_discount_raises check_discount_parse_raises)
  then have 1: "sleep env = Returns () \<Longrightarrow>
            iteration html_parser m env =
              (m, [http_request m,
                   Log ERROR (case e of RequestException s \<Rightarrow> RequestError s
                                | _ \<Rightarrow> CheckError (exn_str e)),
                   Log INFO NoDiscount, Sleep (check_interval (config m))], Continue)"
    by (simp add: iteration_def loop_try_def sleep_interval_def)
  have 2: "fst (iteration html_parser m env) = m \<and>
      pass_flow (iteration html_parser m env) = Continue"
    if "sleep env \<noteq> Raises KeyboardInterrupt" and "\<not> recovery_interrupted env"
  proof (cases "sleep env")
    case (Returns u)
    with 1 show ?thesis by (simp add: pass_flow_def)
  next
    case (Raises x)
    with that have "x \<noteq> KeyboardInterrupt" by simp
    with c Raises that(2) show ?thesis
      by (cases x) (simp_all add: iteration_def loop_try_def sleep_interval_def pass_flow_def)
  qed
  have 3: "\<forall>r. (\<exists>x. raise_for_status r = Raises x) \<longleftrightarrow>
                400 \<le> status_code r \<and> status_code r < 600"
    by (auto simp add: raise_for_status_def)
  have 4: "\<forall>r. \<not> (400 \<le> status_code r \<and> status_code r < 600) \<longrightarrow>
                fetch_page (Returns r) = Returns (resp_text r)"
    by (auto simp add: fetch_page_def raise_for_status_def)
  from c 1 2 3 4 show ?thesis by simp
qed

text \<open>
  A timeout of the request, a response with status 404, and a response that the parser
  rejects.
\<close>

theorem fetch_failure_absorbed_witness:
  "iteration example_parser (GregoryMonitor example_config)
     (quiet_env\<lparr>got := Raises (RequestException ''timed out'')\<rparr>) =
     (GregoryMonitor example_config,
      [http_request (GregoryMonitor example_config), Log ERROR (RequestError ''timed out''),
       Log INFO NoDiscount, Sleep 1800], Continue) \<and>
   iteration example_parser (GregoryMonitor example_config)
     (quiet_env\<lparr>got := Returns \<lparr>status_code = 404, reason = ''Not Found'',
        url = ''https://shop.example/'', resp_text = ''<h1>Discount</h1>''\<rparr>\<rparr>) =
     (GregoryMonitor example_config,
      [http_request (GregoryMonitor example_config),
       Log ERROR (RequestError ''404 Client Error: Not Found for url: https://shop.example/''),
       Log INFO NoDiscount, Sleep 1800], Continue) \<and>
   iteration example_parser (GregoryMonitor example_config)
     (quiet_env\<lparr>got := Returns (ok_page ''<![UNKNOWN[]]>'')\<rparr>) =
     (GregoryMonitor example_config,
      [http_request (GregoryMonitor example_config), Log ERROR (CheckError ''cannot parse''),
       Log INFO NoDiscount, Sleep 1800], Continue)"
proof -
  let ?m = "GregoryMonitor example_config"
  let ?e1 = "quiet_env\<lparr>got := Raises (RequestException ''timed out'')\<rparr>"
  let ?r = "\<lparr>status_code = 404, reason = ''Not Found'',
        url = ''https://shop.example/'', resp_text = ''<h1>Discount</h1>''\<rparr>"
  let ?e2 = "quiet_env\<lparr>got := Returns ?r\<rparr>"
  let ?e3 = "quiet_env\<lparr>got := Returns (ok_page ''<![UNKNOWN[]]>'')\<rparr>"
  have s: "sleep ?e1 = Returns ()" "sleep ?e2 = Returns ()" "sleep ?e3 = Returns ()"
    by (simp_all add: quiet_env_def)
  have 1: "got ?e1 = Raises (RequestException ''timed out'') \<or>
      (\<exists>r. got ?e1 = Returns r \<and> 400 \<le> status_code r \<and> status_code r < 600 \<and>
           raise_for_status r = Raises (RequestException ''timed out'')) \<or>
      (\<exists>html. fetched ?e1 = Returns html \<and>
           example_parser html = Raises (RequestException ''timed out''))"
    by simp
  have msg: "raise_for_status ?r = Raises (RequestException
      ''404 Client Error: Not Found for url: https://shop.example/'')"
    by (simp add: raise_for_status_def status_digits_def char_of_def bit_Suc_0_iff)
  then have 2: "got ?e2 = Raises (RequestException
        ''404 Client Error: Not Found for url: https://shop.example/'') \<or>
      (\<exists>r. got ?e2 = Returns r \<and> 400 \<le> status_code r \<and> status_code r < 600 \<and>
           raise_for_status r = Raises (RequestException
             ''404 Client Error: Not Found for url: https://shop.example/'')) \<or>
      (\<exists>html. fetched ?e2 = Returns html \<and>
           example_parser html = Raises (RequestException
             ''404 Client Error: Not Found for url: https://shop.example/''))"
    by simp
  have 3: "got ?e3 = Raises (OtherException ''cannot parse'') \<or>
      (\<exists>r. got ?e3 = Returns r \<and> 400 \<le> status_code r \<and> status_code r < 600 \<and>
           raise_for_status r = Raises (OtherException ''cannot parse'')) \<or>
      (\<exists>html. fetched ?e3 = Returns html \<and>
           example_parser html = Raises (OtherException ''cannot parse''))"
    by (simp add: fetch_eval example_parser_simps(10))
  from s
    fetch_failure_absorbed [OF 1, of ?m "[]"]
    fetch_failure_absorbed [OF 2, of ?m "[]"]
    fetch_failure_absorbed [OF 3, of ?m "[]"]
  show ?thesis
    by (simp add: GregoryMonitor_def example_config_def)
qed

text \<open>
  C8. The loop under faults. An exception other than the operator's interrupt that leaves
  the \<open>try\<close> body is logged and followed by a sleep of 300 seconds, and the loop goes
  on (\<open>loop_fault_recovered\<close>); an interrupt that arrives in the \<open>try\<close> body is
  logged and ends the loop by \<open>break\<close> (\<open>interrupt_in_try_breaks\<close>); a pass ends the
  loop only when the operator interrupts (\<open>iteration_flow\<close>). But an interrupt that
  arrives during the sleep of 300 seconds of line 172 is raised inside the
  \<open>except Exception\<close> clause, where the \<open>except KeyboardInterrupt\<close> clause of the
  same \<open>try\<close> does not apply (\<open>interrupt_in_recovery_escapes\<close>): it leaves
  \<open>run\<close> and \<open>main\<close> uncaught, without the shutdown log record. Such a run: the
  poll interval is \<open>-1\<close>, which validation accepts, \<open>time.sleep(-1)\<close> raises
  \<open>ValueError\<close>, and the operator interrupts the recovery sleep.
\<close>

theorem interrupt_during_recovery_sleep:
  "main example_parser (example_config\<lparr>check_interval := - 1\<rparr>)
     [quiet_env\<lparr>sleep := Raises (OtherException ''sleep length must be non-negative''),
                recovery_interrupted := True\<rparr>] =
     ([Log INFO ServiceStarted,
       http_request (GregoryMonitor (example_config\<lparr>check_interval := - 1\<rparr>)),
       Log INFO NoDiscount,
       Log ERROR (LoopError ''sleep length must be non-negative'')],
      Uncaught KeyboardInterrupt) \<and>
   Log INFO UserInterrupt \<notin> set (fst (main example_parser
     (example_config\<lparr>check_interval := - 1\<rparr>)
     [quiet_env\<lparr>sleep := Raises (OtherException ''sleep length must be non-negative''),
                recovery_interrupted := True\<rparr>])) \<and>
   exit_code (snd (main example_parser
     (example_config\<lparr>check_interval := - 1\<rparr>)
     [quiet_env\<lparr>sleep := Raises (OtherException ''sleep length must be non-negative''),
                recovery_interrupted := True\<rparr>])) \<noteq> Some 0"
  by (simp add: main_def run_def loop_ending_def pass_eval http_request_def example_config_def
      validate_def dict_items_def)

end
